theory Spec2Isabelle
  imports Main "HOL-Library.Word"
begin

section \<open>The session package: data model\<close>

text \<open>
  The embedding follows \<^verbatim>\<open>session/session.go\<close>. Pointers and channels are
  identities (natural numbers); a nil pointer is \<open>None\<close>. A non-nil Go \<^verbatim>\<open>error\<close> is
  the string its \<^verbatim>\<open>Error()\<close> returns. Go's \<^verbatim>\<open>int\<close> and
  \<^verbatim>\<open>time.Duration\<close> are 64-bit words.
\<close>

type_synonym conn = nat
type_synonym chan = nat
type_synonym sink = nat
type_synonym err = string
type_synonym ClientId = nat
type_synonym Duration = "64 word"
type_synonym ChangeFunc = nat

text \<open>
  \<^verbatim>\<open>type ZKSessionEvent uint\<close> with its five \<^verbatim>\<open>iota\<close> constants, in the
  order of the source.
\<close>

datatype ZKSessionEvent =
    SessionClosed
  | SessionDisconnected
  | SessionReconnected
  | SessionExpiredReconnected
  | SessionFailed

text \<open>
  The \<^verbatim>\<open>stdLogger\<close> interface has two kinds of inhabitants here: the package's
  own \<^verbatim>\<open>nullLogger\<close>, whose \<^verbatim>\<open>Printf\<close> has an empty body, and any
  logger handed in by the caller.
\<close>

datatype stdLogger = nullLogger | callerLogger nat

text \<open>
  \<^verbatim>\<open>time.Second\<close> is \<open>10^9\<close> nanoseconds;
  \<^verbatim>\<open>DefaultRecvTimeout = 5 * time.Second\<close>.
\<close>

definition Second :: Duration where
  "Second = 1000000000"

definition DefaultRecvTimeout :: Duration where
  "DefaultRecvTimeout = 5 * Second"

text \<open>
  \<^verbatim>\<open>SessionOpts\<close> is declared outside \<^verbatim>\<open>session.go\<close>; the fields are the
  ones \<^verbatim>\<open>session.go\<close> reads and writes: \<^verbatim>\<open>servers\<close>,
  \<^verbatim>\<open>recvTimeout\<close>, \<^verbatim>\<open>clientID\<close> and \<^verbatim>\<open>logger\<close>.
\<close>

record SessionOpts =
  servers :: "string list"
  recvTimeout :: Duration
  clientID :: "ClientId option"
  logger :: stdLogger

text \<open>
  \<^verbatim>\<open>ZKSession\<close>. The mutex \<^verbatim>\<open>mu\<close> carries no data: taking and
  releasing it are effects (below).
\<close>

record ZKSession =
  opts :: SessionOpts
  conn :: "conn option"
  events :: chan
  subscriptions :: "sink list"
  log :: stdLogger

text \<open>
  The values of \<^verbatim>\<open>zookeeper.Event.State\<close>: the six constants
  \<^verbatim>\<open>manage\<close> switches on, and every other value.
\<close>

datatype State =
    STATE_EXPIRED_SESSION
  | STATE_AUTH_FAILED
  | STATE_CONNECTING
  | STATE_ASSOCIATING
  | STATE_CONNECTED
  | STATE_CLOSED
  | STATE_OTHER int

text \<open>
  The arguments of the pass-through methods, and the methods of
  \<^verbatim>\<open>*zookeeper.Conn\<close> they call. A \<^verbatim>\<open>zookeeper.ChangeFunc\<close> is handed
  through as a value and never applied here, so it is an identity.
\<close>

record ACL =
  Perms :: "32 word"
  Scheme :: string
  Id :: string

datatype request =
    Conn_ACL string
  | Conn_AddAuth string string
  | Conn_Children string
  | Conn_ChildrenW string
  | Conn_ClientId
  | Conn_Close
  | Conn_Create string string "64 word" "ACL list"
  | Conn_Delete string "64 word"
  | Conn_Exists string
  | Conn_ExistsW string
  | Conn_Get string
  | Conn_GetW string
  | Conn_Set string string "64 word"
  | Conn_RetryChange string "64 word" "ACL list" ChangeFunc
  | Conn_SetACL string "ACL list" "64 word"
  | Conn_CurrentServer
  | Conn_ConnectedServer
  | Conn_SetServersResolutionDelay Duration

section \<open>Effects\<close>

text \<open>
  What a method does beyond changing the session's fields is recorded, in program order,
  as a list of effects: taking and releasing \<^verbatim>\<open>s.mu\<close>, every read and write of
  one of the four fields that change after construction, the receive on
  \<^verbatim>\<open>s.events\<close>, the entry of \<^verbatim>\<open>notifySubscribers\<close>, each send to a
  subscriber, each line handed to a caller's logger, and each call into the
  \<^verbatim>\<open>zookeeper\<close> package.
\<close>

datatype field = F_opts | F_conn | F_events | F_subscriptions

datatype logarg = ArgConn "conn option" | ArgErr err | ArgStr string

datatype effect =
    Lock
  | Unlock
  | Rd field
  | Wr field
  | Recv chan State
  | Notify ZKSessionEvent
  | Send sink ZKSessionEvent
  | LogLine nat string "logarg list"
  | CallRedial string Duration "ClientId option"
  | CallClose conn
  | CallClientId conn
  | CallConnectedServer conn
  | Call "conn option" request

record machine =
  sess :: ZKSession
  trace :: "effect list"

definition eff :: "effect \<Rightarrow> machine \<Rightarrow> machine" where
  "eff e m = m\<lparr>trace := trace m @ [e]\<rparr>"

text \<open>
  \<^verbatim>\<open>s.log.Printf(format, v...)\<close>: nothing for the \<^verbatim>\<open>nullLogger\<close>, a
  line for a caller's logger.
\<close>

definition Printf :: "string \<Rightarrow> logarg list \<Rightarrow> machine \<Rightarrow> machine" where
  "Printf format v m =
     (case log (sess m) of
        nullLogger \<Rightarrow> m
      | callerLogger l \<Rightarrow> eff (LogLine l format v) m)"

text \<open>\<^verbatim>\<open>strings.Join\<close>.\<close>

fun Join :: "string list \<Rightarrow> string \<Rightarrow> string" where
  "Join [] sep = []"
| "Join [x] sep = x"
| "Join (x # y # xs) sep = x @ sep @ Join (y # xs) sep"

section \<open>The subscriber registry\<close>

text \<open>
  \<^verbatim>\<open>Subscribe\<close>: lock, append, unlock (deferred).
\<close>

definition Subscribe :: "sink \<Rightarrow> machine \<Rightarrow> machine" where
  "Subscribe subscription m =
     (let m = eff Lock m;
          m = eff (Rd F_subscriptions) m;
          m = eff (Wr F_subscriptions)
                (m\<lparr>sess := (sess m)\<lparr>subscriptions := subscriptions (sess m) @ [subscription]\<rparr>\<rparr>);
          m = eff Unlock m
      in m)"

text \<open>
  \<^verbatim>\<open>notifySubscribers\<close>: lock, one send per element of
  \<^verbatim>\<open>s.subscriptions\<close> in slice order, unlock (deferred). A send is taken to
  complete: a subscriber that never receives blocks the method for good.
\<close>

definition notifySubscribers :: "ZKSessionEvent \<Rightarrow> machine \<Rightarrow> machine" where
  "notifySubscribers event m =
     (let m = eff (Notify event) m;
          m = eff Lock m;
          m = eff (Rd F_subscriptions) m;
          m = foldl (\<lambda>m subscriber. eff (Send subscriber event) m) m (subscriptions (sess m));
          m = eff Unlock m
      in m)"

section \<open>The processing loop\<close>

text \<open>
  One iteration of \<^verbatim>\<open>manage\<close> receives one event. What the
  \<^verbatim>\<open>zookeeper\<close> package answers during that iteration comes with it:
  \<^verbatim>\<open>Redial\<close>'s result (\<open>Inl err\<close> for a non-nil error, \<open>Inr (conn, events)\<close>
  for a nil one, where the handle is then not nil), the result of \<^verbatim>\<open>Close()\<close> on the
  old handle, and \<^verbatim>\<open>ClientId()\<close> and \<^verbatim>\<open>ConnectedServer()\<close> of the new
  one. Only the \<^verbatim>\<open>STATE_EXPIRED_SESSION\<close> case consults the answers.
\<close>

record signal =
  sig_state :: State
  redial_result :: "err + conn \<times> chan"
  close_result :: "err option"
  client_id_result :: "ClientId option"
  connected_server_result :: string

text \<open>
  Modelled from the spec: the option builder \<^verbatim>\<open>WithZookeeperClientID\<close> is
  declared outside \<^verbatim>\<open>session.go\<close>. The spec (sections 4.1 and 6) has it store
  the resumption token in the options, which is what \<^verbatim>\<open>manage\<close> reads back as
  \<^verbatim>\<open>s.opts.clientID\<close>.
\<close>

definition WithZookeeperClientID :: "ClientId option \<Rightarrow> SessionOpts \<Rightarrow> SessionOpts" where
  "WithZookeeperClientID clientId so = so\<lparr>clientID := clientId\<rparr>"

text \<open>
  The body of \<^verbatim>\<open>if err == nil { ... }\<close> after the redial. The
  \<^verbatim>\<open>err\<close> of \<^verbatim>\<open>s.conn.Close()\<close> is declared inside the inner block and
  shadows the redial's. The last line reads \<^verbatim>\<open>s.conn\<close> back, which is the
  handle just stored (only this loop writes the field).
\<close>

definition install :: "conn \<Rightarrow> chan \<Rightarrow> signal \<Rightarrow> machine \<Rightarrow> machine" where
  "install c evs sg m =
     (let m = Printf ''gozk-recipes/session: STATE_EXPIRED_SESSION redialed conn %+v''
                [ArgConn (Some c)] m;
          m = eff Lock m;
          m = eff (Rd F_conn) m;
          m = (case conn (sess m) of
                 None \<Rightarrow> m
               | Some old \<Rightarrow>
                   (let m = eff (Rd F_conn) m;
                        m = eff (CallClose old) m
                    in case close_result sg of
                         None \<Rightarrow> m
                       | Some e \<Rightarrow>
                           Printf ''gozk-recipes/session: error in closing existing zookeeper connection: %v''
                             [ArgErr e] m));
          m = eff (Wr F_conn) (m\<lparr>sess := (sess m)\<lparr>conn := Some c\<rparr>\<rparr>);
          m = eff (Wr F_events) (m\<lparr>sess := (sess m)\<lparr>events := evs\<rparr>\<rparr>);
          m = eff (CallClientId c) m;
          m = eff (Rd F_opts) m;
          m = eff (Wr F_opts)
                (m\<lparr>sess := (sess m)\<lparr>opts := WithZookeeperClientID (client_id_result sg) (opts (sess m))\<rparr>\<rparr>);
          m = eff Unlock m;
          m = eff (Rd F_conn) m;
          m = eff (CallConnectedServer c) m;
          m = Printf ''gozk-recipes/session: session re-established with %s''
                [ArgStr (connected_server_result sg)] m
      in m)"

text \<open>
  How an iteration ends: \<open>Continue expired\<close> goes round the \<^verbatim>\<open>for\<close> again with
  the local \<^verbatim>\<open>expired\<close> as given, \<open>Return\<close> is \<^verbatim>\<open>return\<close>.
\<close>

datatype control = Continue bool | Return

definition manage_step :: "signal \<Rightarrow> bool \<Rightarrow> machine \<Rightarrow> control \<times> machine" where
  "manage_step sg expired m =
     (let m = eff (Rd F_events) m;
          m = eff (Recv (events (sess m)) (sig_state sg)) m
      in case sig_state sg of
           STATE_EXPIRED_SESSION \<Rightarrow>
             (let m = eff (Rd F_conn) m;
                  m = Printf ''gozk-recipes/session: got STATE_EXPIRED_SESSION for conn %+v''
                        [ArgConn (conn (sess m))] m;
                  expired = True;
                  m = eff (Rd F_opts) m;
                  m = eff (Rd F_opts) m;
                  m = eff (Rd F_opts) m;
                  m = eff (CallRedial (Join (servers (opts (sess m))) '','')
                             (recvTimeout (opts (sess m))) (clientID (opts (sess m)))) m;
                  m = (case redial_result sg of
                         Inr (c, evs) \<Rightarrow> install c evs sg m
                       | Inl e \<Rightarrow> m)
              in case redial_result sg of
                   Inl e \<Rightarrow>
                     (let m = notifySubscribers SessionFailed m;
                          m = Printf ''gozk-recipes/session.SessionFailed: %s, session terminated''
                                [ArgStr e] m
                      in (Return, m))
                 | Inr _ \<Rightarrow> (Continue expired, m))
         | STATE_AUTH_FAILED \<Rightarrow>
             (let m = notifySubscribers SessionFailed m;
                  m = Printf ''gozk-recipes/session.SessionFailed: zookeeper.STATE_AUTH_FAILURE, session terminated''
                        [] m
              in (Return, m))
         | STATE_CONNECTING \<Rightarrow>
             (let m = notifySubscribers SessionDisconnected m;
                  m = Printf ''gozk-recipes/session.SessionDisconnected: attempting to reconnect''
                        [] m
              in (Continue expired, m))
         | STATE_ASSOCIATING \<Rightarrow> (Continue expired, m)
         | STATE_CONNECTED \<Rightarrow>
             (if expired then
                (let m = notifySubscribers SessionExpiredReconnected m;
                     m = Printf ''gozk-recipes/session.SessionExpiredReconnected: all ephemeral nodes purged''
                           [] m;
                     expired = False
                 in (Continue expired, m))
              else
                (let m = notifySubscribers SessionReconnected m;
                     m = Printf ''gozk-recipes/session.SessionReconnected: reconnected before timed out''
                           [] m
                 in (Continue expired, m)))
         | STATE_CLOSED \<Rightarrow>
             (let m = notifySubscribers SessionClosed m;
                  m = Printf ''gozk-recipes/session.SessionClosed: normally caused by call to Close(), session terminated''
                        [] m
              in (Return, m))
         | STATE_OTHER n \<Rightarrow> (Continue expired, m))"

text \<open>
  The \<^verbatim>\<open>for\<close> loop over the events that arrive, in order. When none is left the
  loop is blocked in its \<^verbatim>\<open>select\<close> (\<open>Continue\<close>); after \<^verbatim>\<open>return\<close>
  nothing is received any more.
\<close>

fun manage_loop :: "signal list \<Rightarrow> bool \<Rightarrow> machine \<Rightarrow> control \<times> machine" where
  "manage_loop [] expired m = (Continue expired, m)"
| "manage_loop (sg # sgs) expired m =
     (case manage_step sg expired m of
        (Continue expired', m') \<Rightarrow> manage_loop sgs expired' m'
      | (Return, m') \<Rightarrow> (Return, m'))"

text \<open>\<^verbatim>\<open>manage\<close>: \<^verbatim>\<open>expired := false\<close>, then the loop.\<close>

definition manage :: "signal list \<Rightarrow> machine \<Rightarrow> control \<times> machine" where
  "manage sgs m = manage_loop sgs False m"

text \<open>
  The session with its callers: events delivered to the loop and calls of
  \<^verbatim>\<open>Subscribe\<close> from other goroutines, interleaved in some order.
  \<^verbatim>\<open>Subscribe\<close> and \<^verbatim>\<open>notifySubscribers\<close> exclude each other through
  \<^verbatim>\<open>s.mu\<close>, so a subscription falls between two iterations or inside one
  iteration outside its broadcast, where it changes nothing the iteration reads. Once
  \<^verbatim>\<open>manage\<close> has returned nothing receives from the channel.
\<close>

datatype action = Deliver signal | DoSubscribe sink

fun system :: "action list \<Rightarrow> control \<Rightarrow> machine \<Rightarrow> control \<times> machine" where
  "system [] c m = (c, m)"
| "system (Deliver sg # acts) (Continue expired) m =
     (case manage_step sg expired m of (c', m') \<Rightarrow> system acts c' m')"
| "system (Deliver sg # acts) Return m = system acts Return m"
| "system (DoSubscribe subscription # acts) c m = system acts c (Subscribe subscription m)"

section \<open>Construction\<close>

text \<open>
  \<^verbatim>\<open>NewSessionWithOpts\<close>: the defaults, then each option applied in order, then
  \<^verbatim>\<open>sessionOpts.Create()\<close>. A \<^verbatim>\<open>SessionOpt\<close> is a function on
  \<^verbatim>\<open>SessionOpts\<close> (it is applied as \<^verbatim>\<open>so(sessionOpts)\<close>); the fields
  the literal leaves out have their zero values. \<^verbatim>\<open>Create\<close> is declared outside
  \<^verbatim>\<open>session.go\<close> and is a parameter. Starting the goroutine
  \<^verbatim>\<open>session.manage()\<close> leaves the returned value as it is.
\<close>

definition sessionOpts :: "(SessionOpts \<Rightarrow> SessionOpts) list \<Rightarrow> SessionOpts" where
  "sessionOpts opts' =
     foldl (\<lambda>sessionOpts so. so sessionOpts)
       \<lparr>servers = [], recvTimeout = DefaultRecvTimeout, clientID = None, logger = nullLogger\<rparr>
       opts'"

definition NewSessionWithOpts ::
  "(SessionOpts \<Rightarrow> err + ZKSession) \<Rightarrow> (SessionOpts \<Rightarrow> SessionOpts) list \<Rightarrow> err + ZKSession" where
  "NewSessionWithOpts Create opts' =
     (case Create (sessionOpts opts') of
        Inl e \<Rightarrow> Inl (''creating zookeeper session: '' @ e)
      | Inr session \<Rightarrow> Inr session)"

section \<open>The pass-through methods\<close>

text \<open>
  Each method is \<^verbatim>\<open>return s.conn.M(args)\<close>: it reads the field and calls the
  method of the handle. What the handle answers, and what the call does to the ensemble,
  is the transport's business: \<open>T\<close> maps the receiver, the call and the state of the world
  to the answer and the new state.
\<close>

type_synonym ('w, 'r) transport = "conn option \<Rightarrow> request \<Rightarrow> 'w \<Rightarrow> 'r \<times> 'w"

definition ZKSession_CurrentConnection ::
  "('w, 'r) transport \<Rightarrow> ZKSession \<Rightarrow> 'w \<Rightarrow> effect list \<times> 'r \<times> 'w" where
  "ZKSession_CurrentConnection T s w =
     ([Rd F_conn, Call (conn s) Conn_CurrentServer], T (conn s) Conn_CurrentServer w)"

definition ZKSession_CurrentServer ::
  "('w, 'r) transport \<Rightarrow> ZKSession \<Rightarrow> 'w \<Rightarrow> effect list \<times> 'r \<times> 'w" where
  "ZKSession_CurrentServer T s w =
     ([Rd F_conn, Call (conn s) Conn_ConnectedServer], T (conn s) Conn_ConnectedServer w)"

definition ZKSession_SetServersResolutionDelay ::
  "('w, 'r) transport \<Rightarrow> ZKSession \<Rightarrow> Duration \<Rightarrow> 'w \<Rightarrow> effect list \<times> 'r \<times> 'w" where
  "ZKSession_SetServersResolutionDelay T s delay w =
     ([Rd F_conn, Call (conn s) (Conn_SetServersResolutionDelay delay)],
      T (conn s) (Conn_SetServersResolutionDelay delay) w)"

definition ZKSession_ACL ::
  "('w, 'r) transport \<Rightarrow> ZKSession \<Rightarrow> string \<Rightarrow> 'w \<Rightarrow> effect list \<times> 'r \<times> 'w" where
  "ZKSession_ACL T s path w =
     ([Rd F_conn, Call (conn s) (Conn_ACL path)], T (conn s) (Conn_ACL path) w)"

definition ZKSession_AddAuth ::
  "('w, 'r) transport \<Rightarrow> ZKSession \<Rightarrow> string \<Rightarrow> string \<Rightarrow> 'w \<Rightarrow> effect list \<times> 'r \<times> 'w" where
  "ZKSession_AddAuth T s scheme cert w =
     ([Rd F_conn, Call (conn s) (Conn_AddAuth scheme cert)], T (conn s) (Conn_AddAuth scheme cert) w)"

definition ZKSession_Children ::
  "('w, 'r) transport \<Rightarrow> ZKSession \<Rightarrow> string \<Rightarrow> 'w \<Rightarrow> effect list \<times> 'r \<times> 'w" where
  "ZKSession_Children T s path w =
     ([Rd F_conn, Call (conn s) (Conn_Children path)], T (conn s) (Conn_Children path) w)"

definition ZKSession_ChildrenW ::
  "('w, 'r) transport \<Rightarrow> ZKSession \<Rightarrow> string \<Rightarrow> 'w \<Rightarrow> effect list \<times> 'r \<times> 'w" where
  "ZKSession_ChildrenW T s path w =
     ([Rd F_conn, Call (conn s) (Conn_ChildrenW path)], T (conn s) (Conn_ChildrenW path) w)"

definition ZKSession_ClientId ::
  "('w, 'r) transport \<Rightarrow> ZKSession \<Rightarrow> 'w \<Rightarrow> effect list \<times> 'r \<times> 'w" where
  "ZKSession_ClientId T s w =
     ([Rd F_conn, Call (conn s) Conn_ClientId], T (conn s) Conn_ClientId w)"

definition ZKSession_Close ::
  "('w, 'r) transport \<Rightarrow> ZKSession \<Rightarrow> 'w \<Rightarrow> effect list \<times> 'r \<times> 'w" where
  "ZKSession_Close T s w =
     ([Rd F_conn, Call (conn s) Conn_Close], T (conn s) Conn_Close w)"

definition ZKSession_Create ::
  "('w, 'r) transport \<Rightarrow> ZKSession \<Rightarrow> string \<Rightarrow> string \<Rightarrow> 64 word \<Rightarrow> ACL list \<Rightarrow> 'w
     \<Rightarrow> effect list \<times> 'r \<times> 'w" where
  "ZKSession_Create T s path value flags aclv w =
     ([Rd F_conn, Call (conn s) (Conn_Create path value flags aclv)],
      T (conn s) (Conn_Create path value flags aclv) w)"

definition ZKSession_Delete ::
  "('w, 'r) transport \<Rightarrow> ZKSession \<Rightarrow> string \<Rightarrow> 64 word \<Rightarrow> 'w \<Rightarrow> effect list \<times> 'r \<times> 'w" where
  "ZKSession_Delete T s path version w =
     ([Rd F_conn, Call (conn s) (Conn_Delete path version)], T (conn s) (Conn_Delete path version) w)"

definition ZKSession_Exists ::
  "('w, 'r) transport \<Rightarrow> ZKSession \<Rightarrow> string \<Rightarrow> 'w \<Rightarrow> effect list \<times> 'r \<times> 'w" where
  "ZKSession_Exists T s path w =
     ([Rd F_conn, Call (conn s) (Conn_Exists path)], T (conn s) (Conn_Exists path) w)"

definition ZKSession_ExistsW ::
  "('w, 'r) transport \<Rightarrow> ZKSession \<Rightarrow> string \<Rightarrow> 'w \<Rightarrow> effect list \<times> 'r \<times> 'w" where
  "ZKSession_ExistsW T s path w =
     ([Rd F_conn, Call (conn s) (Conn_ExistsW path)], T (conn s) (Conn_ExistsW path) w)"

definition ZKSession_Get ::
  "('w, 'r) transport \<Rightarrow> ZKSession \<Rightarrow> string \<Rightarrow> 'w \<Rightarrow> effect list \<times> 'r \<times> 'w" where
  "ZKSession_Get T s path w =
     ([Rd F_conn, Call (conn s) (Conn_Get path)], T (conn s) (Conn_Get path) w)"

definition ZKSession_GetW ::
  "('w, 'r) transport \<Rightarrow> ZKSession \<Rightarrow> string \<Rightarrow> 'w \<Rightarrow> effect list \<times> 'r \<times> 'w" where
  "ZKSession_GetW T s path w =
     ([Rd F_conn, Call (conn s) (Conn_GetW path)], T (conn s) (Conn_GetW path) w)"

definition ZKSession_Set ::
  "('w, 'r) transport \<Rightarrow> ZKSession \<Rightarrow> string \<Rightarrow> string \<Rightarrow> 64 word \<Rightarrow> 'w
     \<Rightarrow> effect list \<times> 'r \<times> 'w" where
  "ZKSession_Set T s path value version w =
     ([Rd F_conn, Call (conn s) (Conn_Set path value version)],
      T (conn s) (Conn_Set path value version) w)"

definition ZKSession_RetryChange ::
  "('w, 'r) transport \<Rightarrow> ZKSession \<Rightarrow> string \<Rightarrow> 64 word \<Rightarrow> ACL list \<Rightarrow> ChangeFunc \<Rightarrow> 'w
     \<Rightarrow> effect list \<times> 'r \<times> 'w" where
  "ZKSession_RetryChange T s path flags acl changeFunc w =
     ([Rd F_conn, Call (conn s) (Conn_RetryChange path flags acl changeFunc)],
      T (conn s) (Conn_RetryChange path flags acl changeFunc) w)"

definition ZKSession_SetACL ::
  "('w, 'r) transport \<Rightarrow> ZKSession \<Rightarrow> string \<Rightarrow> ACL list \<Rightarrow> 64 word \<Rightarrow> 'w
     \<Rightarrow> effect list \<times> 'r \<times> 'w" where
  "ZKSession_SetACL T s path aclv version w =
     ([Rd F_conn, Call (conn s) (Conn_SetACL path aclv version)],
      T (conn s) (Conn_SetACL path aclv version) w)"

section \<open>Reading a trace\<close>

text \<open>
  The events \<^verbatim>\<open>notifySubscribers\<close> was called with, the sends made, what one
  subscriber received, the events the loop took from its channel, and the calls made on
  a handle, each in program order.
\<close>

definition notified :: "effect list \<Rightarrow> ZKSessionEvent list" where
  "notified tr = concat (map (\<lambda>x. case x of Notify e \<Rightarrow> [e] | _ \<Rightarrow> []) tr)"

definition sent :: "effect list \<Rightarrow> (sink \<times> ZKSessionEvent) list" where
  "sent tr = concat (map (\<lambda>x. case x of Send s e \<Rightarrow> [(s, e)] | _ \<Rightarrow> []) tr)"

definition received :: "sink \<Rightarrow> effect list \<Rightarrow> ZKSessionEvent list" where
  "received s tr = map snd (filter (\<lambda>p. fst p = s) (sent tr))"

definition consumed :: "effect list \<Rightarrow> (chan \<times> State) list" where
  "consumed tr = concat (map (\<lambda>x. case x of Recv c st \<Rightarrow> [(c, st)] | _ \<Rightarrow> []) tr)"

definition calls :: "effect list \<Rightarrow> (conn option \<times> request) list" where
  "calls tr = concat (map (\<lambda>x. case x of Call c r \<Rightarrow> [(c, r)] | _ \<Rightarrow> []) tr)"

definition redials :: "effect list \<Rightarrow> (string \<times> Duration \<times> ClientId option) list" where
  "redials tr = concat (map (\<lambda>x. case x of CallRedial a b c \<Rightarrow> [(a, b, c)] | _ \<Rightarrow> []) tr)"

fun is_write :: "effect \<Rightarrow> bool" where
  "is_write (Wr f) = True"
| "is_write _ = False"

fun is_send :: "effect \<Rightarrow> bool" where
  "is_send (Send s e) = True"
| "is_send _ = False"

fun is_log :: "effect \<Rightarrow> bool" where
  "is_log (LogLine l f v) = True"
| "is_log _ = False"

text \<open>
  \<open>guarded P held tr\<close>: every effect of \<open>tr\<close> that satisfies \<open>P\<close> happens while
  \<^verbatim>\<open>s.mu\<close> is held, \<open>held\<close> saying whether it is at the start.
\<close>

fun guarded :: "(effect \<Rightarrow> bool) \<Rightarrow> bool \<Rightarrow> effect list \<Rightarrow> bool" where
  "guarded P held [] = True"
| "guarded P held (Lock # tr) = guarded P True tr"
| "guarded P held (Unlock # tr) = guarded P False tr"
| "guarded P held (e # tr) = ((if P e then held else True) \<and> guarded P held tr)"

text \<open>The effects of one iteration, and of the loop, on a session.\<close>

definition step_effects :: "signal \<Rightarrow> bool \<Rightarrow> ZKSession \<Rightarrow> effect list" where
  "step_effects sg expired s = trace (snd (manage_step sg expired \<lparr>sess = s, trace = []\<rparr>))"

definition manage_effects :: "signal list \<Rightarrow> ZKSession \<Rightarrow> effect list" where
  "manage_effects sgs s = trace (snd (manage sgs \<lparr>sess = s, trace = []\<rparr>))"

section \<open>The specification's words\<close>

text \<open>
  The transition table of section 4.1 of the specification, row by row: from the signal
  and the \<open>expired\<close> flag before, the flag after, the event emitted if any, and whether
  the row is terminal. \<open>SessionExpired ok\<close> is the expiry signal with the outcome of its
  redial.
\<close>

datatype spec_signal =
    Connecting
  | Associating
  | Connected
  | SessionExpired bool
  | AuthFailed
  | Closed

fun spec_table :: "spec_signal \<Rightarrow> bool \<Rightarrow> bool \<times> ZKSessionEvent option \<times> bool" where
  "spec_table Connecting expired = (expired, Some SessionDisconnected, False)"
| "spec_table Associating expired = (expired, None, False)"
| "spec_table Connected False = (False, Some SessionReconnected, False)"
| "spec_table Connected True = (False, Some SessionExpiredReconnected, False)"
| "spec_table (SessionExpired True) expired = (True, None, False)"
| "spec_table (SessionExpired False) expired = (True, Some SessionFailed, True)"
| "spec_table AuthFailed expired = (expired, Some SessionFailed, True)"
| "spec_table Closed expired = (expired, Some SessionClosed, True)"

fun spec_events :: "bool \<Rightarrow> spec_signal list \<Rightarrow> ZKSessionEvent list" where
  "spec_events expired [] = []"
| "spec_events expired (k # ks) =
     (case spec_table k expired of
        (expired', ev, terminal) \<Rightarrow>
          (case ev of None \<Rightarrow> [] | Some e \<Rightarrow> [e])
          @ (if terminal then [] else spec_events expired' ks))"

text \<open>Which row of the table a received signal is, if any.\<close>

definition spec_signal_of :: "signal \<Rightarrow> spec_signal option" where
  "spec_signal_of sg =
     (case sig_state sg of
        STATE_EXPIRED_SESSION \<Rightarrow> Some (SessionExpired (\<not> isl (redial_result sg)))
      | STATE_AUTH_FAILED \<Rightarrow> Some AuthFailed
      | STATE_CONNECTING \<Rightarrow> Some Connecting
      | STATE_ASSOCIATING \<Rightarrow> Some Associating
      | STATE_CONNECTED \<Rightarrow> Some Connected
      | STATE_CLOSED \<Rightarrow> Some Closed
      | STATE_OTHER n \<Rightarrow> None)"

text \<open>
  The signals after which the loop returns: \<^verbatim>\<open>STATE_AUTH_FAILED\<close>,
  \<^verbatim>\<open>STATE_CLOSED\<close>, and \<^verbatim>\<open>STATE_EXPIRED_SESSION\<close> when the redial fails;
  and the terminal event of each.
\<close>

definition terminal :: "signal \<Rightarrow> bool" where
  "terminal sg =
     (sig_state sg = STATE_AUTH_FAILED \<or> sig_state sg = STATE_CLOSED
      \<or> (sig_state sg = STATE_EXPIRED_SESSION \<and> isl (redial_result sg)))"

definition terminal_event :: "signal \<Rightarrow> ZKSessionEvent" where
  "terminal_event sg = (if sig_state sg = STATE_CLOSED then SessionClosed else SessionFailed)"

text \<open>
  The specification's interval for the \<open>expired\<close> flag, after the signals \<open>sgs\<close>: some
  expiry signal with a successful redial has been processed and no
  \<^verbatim>\<open>Connected\<close> signal after it.
\<close>

definition expired_interval :: "signal list \<Rightarrow> bool" where
  "expired_interval sgs =
     (\<exists>i \<in> {0..<length sgs}.
        sig_state (sgs ! i) = STATE_EXPIRED_SESSION \<and> \<not> isl (redial_result (sgs ! i))
        \<and> (\<forall>j \<in> {i + 1..<length sgs}. sig_state (sgs ! j) \<noteq> STATE_CONNECTED))"

section \<open>Derived notions for the proofs\<close>

text \<open>
  The line \<^verbatim>\<open>Printf\<close> produces for a logger; the effects of the redial branch;
  what an iteration does to the session and how it ends; the effects of the loop from a
  given value of \<^verbatim>\<open>expired\<close>; and an event list fanned out over a subscriber
  list, event by event.
\<close>

definition log_line :: "stdLogger \<Rightarrow> string \<Rightarrow> logarg list \<Rightarrow> effect list" where
  "log_line lg f v = (case lg of nullLogger \<Rightarrow> [] | callerLogger l \<Rightarrow> [LogLine l f v])"

definition install_effects :: "conn \<Rightarrow> signal \<Rightarrow> ZKSession \<Rightarrow> effect list" where
  "install_effects c sg s =
     log_line (log s) ''gozk-recipes/session: STATE_EXPIRED_SESSION redialed conn %+v''
       [ArgConn (Some c)]
     @ [Lock, Rd F_conn]
     @ (case conn s of
          None \<Rightarrow> []
        | Some old \<Rightarrow>
            [Rd F_conn, CallClose old]
            @ (case close_result sg of
                 None \<Rightarrow> []
               | Some e \<Rightarrow>
                   log_line (log s)
                     ''gozk-recipes/session: error in closing existing zookeeper connection: %v''
                     [ArgErr e]))
     @ [Wr F_conn, Wr F_events, CallClientId c, Rd F_opts, Wr F_opts, Unlock, Rd F_conn,
        CallConnectedServer c]
     @ log_line (log s) ''gozk-recipes/session: session re-established with %s''
         [ArgStr (connected_server_result sg)]"

definition step_session :: "signal \<Rightarrow> bool \<Rightarrow> ZKSession \<Rightarrow> ZKSession" where
  "step_session sg expired s = sess (snd (manage_step sg expired \<lparr>sess = s, trace = []\<rparr>))"

definition step_control :: "signal \<Rightarrow> bool \<Rightarrow> ZKSession \<Rightarrow> control" where
  "step_control sg expired s = fst (manage_step sg expired \<lparr>sess = s, trace = []\<rparr>)"

definition loop_effects :: "signal list \<Rightarrow> bool \<Rightarrow> ZKSession \<Rightarrow> effect list" where
  "loop_effects sgs expired s = trace (snd (manage_loop sgs expired \<lparr>sess = s, trace = []\<rparr>))"

definition fan_out :: "sink list \<Rightarrow> ZKSessionEvent list \<Rightarrow> (sink \<times> ZKSessionEvent) list" where
  "fan_out subs evs = concat (map (\<lambda>e. map (\<lambda>x. (x, e)) subs) evs)"

text \<open>
  The value of \<^verbatim>\<open>expired\<close> after a run of iterations none of which returns;
  an expiry signal whose redial succeeds; and whether \<^verbatim>\<open>s.mu\<close> is held after
  a trace.
\<close>

fun flag_after :: "bool \<Rightarrow> signal list \<Rightarrow> bool" where
  "flag_after expired [] = expired"
| "flag_after expired (sg # sgs) =
     flag_after (if sig_state sg = STATE_EXPIRED_SESSION then True
                 else if sig_state sg = STATE_CONNECTED then False else expired) sgs"

definition expiry_ok :: "signal \<Rightarrow> bool" where
  "expiry_ok sg = (sig_state sg = STATE_EXPIRED_SESSION \<and> \<not> isl (redial_result sg))"

fun held_after :: "bool \<Rightarrow> effect list \<Rightarrow> bool" where
  "held_after held [] = held"
| "held_after held (Lock # tr) = held_after True tr"
| "held_after held (Unlock # tr) = held_after False tr"
| "held_after held (e # tr) = held_after held tr"

text \<open>
  A run of broadcasts, one after the other, and its effects on a session; the effects of
  one broadcast over a subscriber list; a read of \<^verbatim>\<open>s.conn\<close>; the signals
  \<^verbatim>\<open>manage\<close> has no action for; the receives a run of them leaves in the
  trace.
\<close>

definition broadcast :: "ZKSessionEvent list \<Rightarrow> machine \<Rightarrow> machine" where
  "broadcast evs m = foldl (\<lambda>m e. notifySubscribers e m) m evs"

definition broadcast_effects :: "ZKSessionEvent list \<Rightarrow> ZKSession \<Rightarrow> effect list" where
  "broadcast_effects evs s = trace (broadcast evs \<lparr>sess = s, trace = []\<rparr>)"

definition notify_effects :: "sink list \<Rightarrow> ZKSessionEvent \<Rightarrow> effect list" where
  "notify_effects subs e =
     [Notify e, Lock, Rd F_subscriptions] @ map (\<lambda>x. Send x e) subs @ [Unlock]"

fun is_conn_read :: "effect \<Rightarrow> bool" where
  "is_conn_read (Rd f) = (f = F_conn)"
| "is_conn_read _ = False"

definition ignored :: "signal \<Rightarrow> bool" where
  "ignored sg = (sig_state sg = STATE_ASSOCIATING \<or> (\<exists>n. sig_state sg = STATE_OTHER n))"

definition receives :: "chan \<Rightarrow> signal list \<Rightarrow> effect list" where
  "receives c sgs = concat (map (\<lambda>sg. [Rd F_events, Recv c (sig_state sg)]) sgs)"

text \<open>
  What a pass-through call \<open>out\<close> for the transport call \<open>req\<close> is held to: its answer
  and the state of the world after it are the transport's for the session's handle; it
  makes that one call and no other; it reads \<^verbatim>\<open>s.conn\<close> once; it takes no
  mutex, writes no field and emits no event.
\<close>

definition passes_through ::
  "('w, 'r) transport \<Rightarrow> ZKSession \<Rightarrow> 'w \<Rightarrow> request \<Rightarrow> effect list \<times> 'r \<times> 'w \<Rightarrow> bool" where
  "passes_through T s w req out =
     (snd out = T (conn s) req w
      \<and> calls (fst out) = [(conn s, req)]
      \<and> filter is_conn_read (fst out) = [Rd F_conn]
      \<and> Lock \<notin> set (fst out)
      \<and> filter is_write (fst out) = []
      \<and> notified (fst out) = [])"

text \<open>Sample values: a signal of a given state, a successful expiry, and a session.\<close>

definition signal_of :: "State \<Rightarrow> signal" where
  "signal_of st =
     \<lparr>sig_state = st, redial_result = Inl ''no route to host'', close_result = None,
      client_id_result = None, connected_server_result = []\<rparr>"

definition expiry_redialled :: signal where
  "expiry_redialled =
     \<lparr>sig_state = STATE_EXPIRED_SESSION, redial_result = Inr (8, 9),
      close_result = Some ''already closed'', client_id_result = Some 42,
      connected_server_result = ''10.0.0.2:2181''\<rparr>"

definition session0 :: ZKSession where
  "session0 =
     \<lparr>opts = \<lparr>servers = [''10.0.0.1:2181'', ''10.0.0.2:2181''], recvTimeout = DefaultRecvTimeout,
              clientID = Some 7, logger = callerLogger 0\<rparr>,
      conn = Some 1, events = 2, subscriptions = [5, 6], log = callerLogger 0\<rparr>"

section \<open>Basic facts\<close>

lemma eff_simps: "sess (eff e m) = sess m" "trace (eff e m) = trace m @ [e]"
  by (simp_all add: eff_def)

lemma Printf_sess: "sess (Printf f v m) = sess m"
  by (simp add: Printf_def eff_simps split: stdLogger.split)

lemma Printf_trace: "trace (Printf f v m) = trace m @ log_line (log (sess m)) f v"
  by (simp add: Printf_def log_line_def eff_simps split: stdLogger.split)

lemma sends_foldl:
  "foldl (\<lambda>m subscriber. eff (Send subscriber e) m) m xs
     = m\<lparr>trace := trace m @ map (\<lambda>s. Send s e) xs\<rparr>"
  by (induction xs arbitrary: m) (simp_all add: eff_def)

lemma notifySubscribers_sess: "sess (notifySubscribers e m) = sess m"
  by (simp add: notifySubscribers_def Let_def sends_foldl eff_simps)

lemma notifySubscribers_trace:
  "trace (notifySubscribers e m)
     = trace m @ [Notify e, Lock, Rd F_subscriptions]
       @ map (\<lambda>s. Send s e) (subscriptions (sess m)) @ [Unlock]"
  by (simp add: notifySubscribers_def Let_def sends_foldl eff_simps)

lemma proj_append:
  "notified (a @ b) = notified a @ notified b"
  "sent (a @ b) = sent a @ sent b"
  "received s (a @ b) = received s a @ received s b"
  "consumed (a @ b) = consumed a @ consumed b"
  "redials (a @ b) = redials a @ redials b"
  by (simp_all add: notified_def sent_def received_def consumed_def redials_def)

lemma proj_Nil:
  "notified [] = []" "sent [] = []" "received s [] = []" "consumed [] = []" "redials [] = []"
  by (simp_all add: notified_def sent_def received_def consumed_def redials_def)

lemma proj_Cons:
  "notified (x # xs) = (case x of Notify e \<Rightarrow> [e] | _ \<Rightarrow> []) @ notified xs"
  "sent (x # xs) = (case x of Send s e \<Rightarrow> [(s, e)] | _ \<Rightarrow> []) @ sent xs"
  "consumed (x # xs) = (case x of Recv c st \<Rightarrow> [(c, st)] | _ \<Rightarrow> []) @ consumed xs"
  "redials (x # xs) = (case x of CallRedial a b c \<Rightarrow> [(a, b, c)] | _ \<Rightarrow> []) @ redials xs"
  by (simp_all add: notified_def sent_def consumed_def redials_def)

lemma proj_log_line:
  "notified (log_line lg f v) = []" "sent (log_line lg f v) = []"
  "received s (log_line lg f v) = []" "consumed (log_line lg f v) = []"
  "redials (log_line lg f v) = []"
  by (cases lg; simp add: notified_def sent_def received_def consumed_def redials_def
        log_line_def)+

lemma sent_map_Send: "sent (map (\<lambda>s. Send s e) xs) = map (\<lambda>s. (s, e)) xs"
  by (induction xs) (simp_all add: sent_def)

lemma notified_map_Send: "notified (map (\<lambda>s. Send s e) xs) = []"
  by (induction xs) (simp_all add: notified_def)

lemma consumed_map_Send: "consumed (map (\<lambda>s. Send s e) xs) = []"
  by (induction xs) (simp_all add: consumed_def)

lemma redials_map_Send: "redials (map (\<lambda>s. Send s e) xs) = []"
  by (induction xs) (simp_all add: redials_def)

lemmas proj_simps = proj_Cons proj_Nil proj_append proj_log_line
  sent_map_Send notified_map_Send consumed_map_Send redials_map_Send

lemma fan_out_simps:
  "fan_out subs [] = []"
  "fan_out subs (a @ b) = fan_out subs a @ fan_out subs b"
  by (simp_all add: fan_out_def)

subsection \<open>The redial branch\<close>

lemma install_sess:
  "sess (install c evs sg m)
     = (sess m)\<lparr>conn := Some c, events := evs,
                opts := (opts (sess m))\<lparr>clientID := client_id_result sg\<rparr>\<rparr>"
  by (simp add: install_def Let_def eff_simps Printf_sess WithZookeeperClientID_def
        split: option.split)

lemma install_trace:
  "trace (install c evs sg m) = trace m @ install_effects c sg (sess m)"
  by (simp add: install_def install_effects_def Let_def eff_simps Printf_sess Printf_trace
        split: option.split)

subsection \<open>One iteration\<close>

lemmas step_unfold = manage_step_def Let_def eff_simps
  Printf_trace Printf_sess notifySubscribers_trace notifySubscribers_sess install_trace
  install_sess

lemma step_trace:
  "trace (snd (manage_step sg ex m)) = trace m @ step_effects sg ex (sess m)"
  by (cases "sig_state sg"; cases "redial_result sg")
     (simp_all add: step_effects_def step_unfold split: prod.split)

lemma step_frame:
  "fst (manage_step sg ex m) = step_control sg ex (sess m)"
  "sess (snd (manage_step sg ex m)) = step_session sg ex (sess m)"
  by (cases "sig_state sg"; cases "redial_result sg";
      simp add: step_control_def step_session_def step_unfold split: prod.split)+

lemma step_eq:
  "manage_step sg ex m
     = (step_control sg ex (sess m),
        \<lparr>sess = step_session sg ex (sess m), trace = trace m @ step_effects sg ex (sess m)\<rparr>)"
  using step_trace [of sg ex m] step_frame [of sg ex m]
  by (cases "manage_step sg ex m") simp

lemma step_ignored:
  "sig_state sg = STATE_ASSOCIATING \<or> (\<exists>n. sig_state sg = STATE_OTHER n) \<Longrightarrow>
   manage_step sg ex m
     = (Continue ex, m\<lparr>trace := trace m @ [Rd F_events, Recv (events (sess m)) (sig_state sg)]\<rparr>)"
  by (auto simp: manage_step_def Let_def eff_def)

lemma step_control_table:
  "step_control sg ex s
     = (case spec_signal_of sg of
          None \<Rightarrow> Continue ex
        | Some k \<Rightarrow>
            (case spec_table k ex of (ex', ev, fin) \<Rightarrow> if fin then Return else Continue ex'))"
  by (cases ex; cases "sig_state sg"; cases "redial_result sg")
     (simp_all add: step_control_def spec_signal_of_def manage_step_def Let_def split: prod.split)

lemma step_notified:
  "notified (step_effects sg ex s)
     = (case spec_signal_of sg of
          None \<Rightarrow> []
        | Some k \<Rightarrow>
            (case spec_table k ex of (ex', ev, fin) \<Rightarrow> (case ev of None \<Rightarrow> [] | Some e \<Rightarrow> [e])))"
  by (cases ex; cases "sig_state sg"; cases "redial_result sg")
     (simp_all add: spec_signal_of_def step_effects_def step_unfold install_effects_def proj_simps
        split: prod.split option.split)

lemma step_session_keeps:
  "subscriptions (step_session sg ex s) = subscriptions s"
  "log (step_session sg ex s) = log s"
  by (cases "sig_state sg"; cases "redial_result sg";
      simp add: step_session_def step_unfold split: prod.split)+

lemma step_sent:
  "sent (step_effects sg ex s) = fan_out (subscriptions s) (notified (step_effects sg ex s))"
  by (cases ex; cases "sig_state sg"; cases "redial_result sg")
     (simp_all add: step_effects_def step_unfold install_effects_def proj_simps fan_out_def
        split: prod.split option.split)

subsection \<open>The loop\<close>

lemma loop_eq:
  "manage_loop sgs ex m
     = (fst (manage_loop sgs ex \<lparr>sess = sess m, trace = []\<rparr>),
        \<lparr>sess = sess (snd (manage_loop sgs ex \<lparr>sess = sess m, trace = []\<rparr>)),
         trace = trace m @ loop_effects sgs ex (sess m)\<rparr>)"
proof (induction sgs arbitrary: ex m)
  case Nil
  show ?case by (simp add: loop_effects_def)
next
  case (Cons sg sgs)
  show ?case
  proof (cases "step_control sg ex (sess m)")
    case Return
    then show ?thesis by (simp add: step_eq loop_effects_def)
  next
    case (Continue ex')
    let ?s = "step_session sg ex (sess m)"
    let ?e = "step_effects sg ex (sess m)"
    have a: "manage_loop (sg # sgs) ex m = manage_loop sgs ex' \<lparr>sess = ?s, trace = trace m @ ?e\<rparr>"
      using Continue by (simp add: step_eq)
    have b: "manage_loop (sg # sgs) ex \<lparr>sess = sess m, trace = []\<rparr>
               = manage_loop sgs ex' \<lparr>sess = ?s, trace = ?e\<rparr>"
      using Continue by (simp add: step_eq)
    show ?thesis
      unfolding a loop_effects_def b
      by (subst Cons.IH, subst (1 2 3) Cons.IH) (simp add: loop_effects_def)
  qed
qed

lemma loop_effects_Nil: "loop_effects [] ex s = []"
  by (simp add: loop_effects_def)

lemma loop_effects_Cons:
  "loop_effects (sg # sgs) ex s
     = step_effects sg ex s
       @ (case step_control sg ex s of
            Return \<Rightarrow> []
          | Continue ex' \<Rightarrow> loop_effects sgs ex' (step_session sg ex s))"
proof (cases "step_control sg ex s")
  case Return
  then show ?thesis by (simp add: loop_effects_def step_eq)
next
  case (Continue ex')
  then show ?thesis
    by (simp add: loop_effects_def step_eq)
       (subst loop_eq, simp add: loop_effects_def)
qed

lemma manage_effects_loop: "manage_effects sgs s = loop_effects sgs False s"
  by (simp add: manage_effects_def manage_def loop_effects_def)

lemma loop_notified:
  "map spec_signal_of sgs = map Some ks \<Longrightarrow>
   notified (loop_effects sgs ex s) = spec_events ex ks"
proof (induction sgs arbitrary: ks ex s)
  case Nil
  then show ?case by (simp add: loop_effects_Nil proj_Nil)
next
  case (Cons sg sgs)
  then obtain k ks' where ks: "ks = k # ks'" and k: "spec_signal_of sg = Some k"
    and rest: "map spec_signal_of sgs = map Some ks'"
    by (cases ks) auto
  obtain ex' ev fin where row: "spec_table k ex = (ex', ev, fin)"
    by (cases "spec_table k ex")
  show ?case
    using k row ks Cons.IH [OF rest]
    by (simp add: loop_effects_Cons proj_append step_notified step_control_table proj_Nil)
qed

lemma loop_sent:
  "sent (loop_effects sgs ex s) = fan_out (subscriptions s) (notified (loop_effects sgs ex s))"
proof (induction sgs arbitrary: ex s)
  case Nil
  show ?case by (simp add: loop_effects_Nil proj_Nil fan_out_simps)
next
  case (Cons sg sgs)
  show ?case
    by (cases "step_control sg ex s")
       (simp_all add: loop_effects_Cons proj_append proj_Nil fan_out_simps step_sent Cons.IH
          step_session_keeps)
qed

section \<open>The claims\<close>

text \<open>
  C1. For every finite sequence of signals of the six recognised kinds, each expiry with
  its redial outcome, the events \<^verbatim>\<open>manage\<close> hands to
  \<^verbatim>\<open>notifySubscribers\<close> are exactly those of the transition table of section 4.1
  run from \<open>expired = false\<close> up to the first terminal row, and every subscriber is sent
  each of them in turn. The events depend on nothing but the kinds of the signals: two
  runs over sequences of the same kinds, on any two sessions, emit the same events.
\<close>

theorem manage_follows_table:
  assumes "map spec_signal_of sgs = map Some ks"
  shows "notified (manage_effects sgs s) = spec_events False ks
       \<and> sent (manage_effects sgs s) = fan_out (subscriptions s) (spec_events False ks)
       \<and> (\<forall>sgs' s'. map spec_signal_of sgs' = map spec_signal_of sgs
            \<longrightarrow> notified (manage_effects sgs' s') = notified (manage_effects sgs s))"
  using assms by (simp add: manage_effects_loop loop_sent loop_notified)

theorem manage_follows_table_witness:
  "map spec_signal_of
     [signal_of STATE_CONNECTING, expiry_redialled, signal_of STATE_ASSOCIATING,
      signal_of STATE_CONNECTED, signal_of STATE_CONNECTED, signal_of STATE_CLOSED,
      signal_of STATE_CONNECTING]
     = map Some [Connecting, SessionExpired True, Associating, Connected, Connected, Closed,
         Connecting]
   \<and> notified (manage_effects
       [signal_of STATE_CONNECTING, expiry_redialled, signal_of STATE_ASSOCIATING,
        signal_of STATE_CONNECTED, signal_of STATE_CONNECTED, signal_of STATE_CLOSED,
        signal_of STATE_CONNECTING] session0)
     = [SessionDisconnected, SessionExpiredReconnected, SessionReconnected, SessionClosed]
   \<and> sent (manage_effects
       [signal_of STATE_CONNECTING, expiry_redialled, signal_of STATE_ASSOCIATING,
        signal_of STATE_CONNECTED, signal_of STATE_CONNECTED, signal_of STATE_CLOSED,
        signal_of STATE_CONNECTING] session0)
     = [(5, SessionDisconnected), (6, SessionDisconnected),
        (5, SessionExpiredReconnected), (6, SessionExpiredReconnected),
        (5, SessionReconnected), (6, SessionReconnected),
        (5, SessionClosed), (6, SessionClosed)]"
  using manage_follows_table
    [of "[signal_of STATE_CONNECTING, expiry_redialled, signal_of STATE_ASSOCIATING,
          signal_of STATE_CONNECTED, signal_of STATE_CONNECTED, signal_of STATE_CLOSED,
          signal_of STATE_CONNECTING]"
        "[Connecting, SessionExpired True, Associating, Connected, Connected, Closed,
          Connecting]" session0]
  by (simp add: spec_signal_of_def signal_of_def expiry_redialled_def session0_def fan_out_def)

lemma Subscribe_simps:
  "trace (Subscribe x m) = trace m @ [Lock, Rd F_subscriptions, Wr F_subscriptions, Unlock]"
  "sess (Subscribe x m) = (sess m)\<lparr>subscriptions := subscriptions (sess m) @ [x]\<rparr>"
  by (simp_all add: Subscribe_def Let_def eff_simps)

lemma system_Return:
  "fst (system acts Return m) = Return
   \<and> notified (trace (snd (system acts Return m))) = notified (trace m)
   \<and> sent (trace (snd (system acts Return m))) = sent (trace m)
   \<and> consumed (trace (snd (system acts Return m))) = consumed (trace m)"
proof (induction acts arbitrary: m)
  case Nil
  show ?case by simp
next
  case (Cons a acts)
  show ?case
    by (cases a) (simp_all add: Cons.IH Subscribe_simps proj_simps)
qed

lemma step_terminal:
  "(step_control sg ex s = Return) = terminal sg"
  by (cases ex; cases "sig_state sg"; cases "redial_result sg")
     (simp_all add: step_control_table spec_signal_of_def terminal_def)

lemma step_terminal_effects:
  assumes "terminal sg"
  shows "notified (step_effects sg ex s) = [terminal_event sg]"
    and "consumed (step_effects sg ex s) = [(events s, sig_state sg)]"
  using assms
  by (cases ex; cases "sig_state sg"; cases "redial_result sg";
      simp add: terminal_def terminal_event_def step_effects_def step_unfold proj_simps)+

lemma step_emits_terminal:
  "(SessionFailed \<in> set (notified (step_effects sg ex s))
     \<or> SessionClosed \<in> set (notified (step_effects sg ex s))) = terminal sg"
  by (cases ex; cases "sig_state sg"; cases "redial_result sg")
     (simp_all add: step_notified spec_signal_of_def terminal_def)

text \<open>
  C2. An iteration returns exactly on \<^verbatim>\<open>STATE_AUTH_FAILED\<close>,
  \<^verbatim>\<open>STATE_CLOSED\<close> and \<^verbatim>\<open>STATE_EXPIRED_SESSION\<close> with a failed
  redial, and these are exactly the iterations that emit \<^verbatim>\<open>SessionFailed\<close> or
  \<^verbatim>\<open>SessionClosed\<close>. Whatever is delivered or subscribed after such an
  iteration, the loop stays returned, the terminal event is the last one emitted, the only
  sends are those to the subscribers registered when it was emitted, and no further
  signal is received: a later subscriber gets nothing.
\<close>

theorem terminal_event_is_final:
  "(fst (manage_step sg expired m) = Return) = terminal sg
   \<and> ((SessionFailed \<in> set (notified (step_effects sg expired (sess m)))
        \<or> SessionClosed \<in> set (notified (step_effects sg expired (sess m)))) = terminal sg)
   \<and> (terminal sg \<longrightarrow>
        (\<forall>acts. fst (system (Deliver sg # acts) (Continue expired) m) = Return
           \<and> notified (trace (snd (system (Deliver sg # acts) (Continue expired) m)))
               = notified (trace m) @ [terminal_event sg]
           \<and> sent (trace (snd (system (Deliver sg # acts) (Continue expired) m)))
               = sent (trace m) @ map (\<lambda>x. (x, terminal_event sg)) (subscriptions (sess m))
           \<and> consumed (trace (snd (system (Deliver sg # acts) (Continue expired) m)))
               = consumed (trace m) @ [(events (sess m), sig_state sg)]))"
proof (intro conjI impI allI)
  show "(fst (manage_step sg expired m) = Return) = terminal sg"
    by (simp add: step_frame step_terminal)
  show "(SessionFailed \<in> set (notified (step_effects sg expired (sess m)))
        \<or> SessionClosed \<in> set (notified (step_effects sg expired (sess m)))) = terminal sg"
    by (rule step_emits_terminal)
next
  fix acts
  assume t: "terminal sg"
  let ?m' = "\<lparr>sess = step_session sg expired (sess m),
              trace = trace m @ step_effects sg expired (sess m)\<rparr>"
  have run: "system (Deliver sg # acts) (Continue expired) m = system acts Return ?m'"
    using t step_terminal [of sg expired "sess m"] by (simp add: step_eq)
  show "fst (system (Deliver sg # acts) (Continue expired) m) = Return"
    unfolding run by (simp add: system_Return)
  show "notified (trace (snd (system (Deliver sg # acts) (Continue expired) m)))
               = notified (trace m) @ [terminal_event sg]"
    unfolding run using t by (simp add: system_Return proj_append step_terminal_effects)
  show "sent (trace (snd (system (Deliver sg # acts) (Continue expired) m)))
               = sent (trace m) @ map (\<lambda>x. (x, terminal_event sg)) (subscriptions (sess m))"
    unfolding run using t by (simp add: system_Return proj_append step_sent step_terminal_effects fan_out_def)
  show "consumed (trace (snd (system (Deliver sg # acts) (Continue expired) m)))
               = consumed (trace m) @ [(events (sess m), sig_state sg)]"
    unfolding run using t by (simp add: system_Return proj_append step_terminal_effects)
qed

theorem terminal_event_is_final_witness:
  "terminal (signal_of STATE_AUTH_FAILED)
   \<and> fst (system [Deliver (signal_of STATE_AUTH_FAILED), DoSubscribe 9,
                  Deliver (signal_of STATE_CONNECTED)]
          (Continue False) \<lparr>sess = session0, trace = []\<rparr>) = Return
   \<and> sent (trace (snd (system [Deliver (signal_of STATE_AUTH_FAILED), DoSubscribe 9,
                                Deliver (signal_of STATE_CONNECTED)]
          (Continue False) \<lparr>sess = session0, trace = []\<rparr>)))
       = [(5, SessionFailed), (6, SessionFailed)]
   \<and> consumed (trace (snd (system [Deliver (signal_of STATE_AUTH_FAILED), DoSubscribe 9,
                                    Deliver (signal_of STATE_CONNECTED)]
          (Continue False) \<lparr>sess = session0, trace = []\<rparr>)))
       = [(2, STATE_AUTH_FAILED)]"
proof -
  have t: "terminal (signal_of STATE_AUTH_FAILED)"
    by (simp add: terminal_def signal_of_def)
  have e: "terminal_event (signal_of STATE_AUTH_FAILED) = SessionFailed"
    "sig_state (signal_of STATE_AUTH_FAILED) = STATE_AUTH_FAILED"
    by (simp_all add: terminal_event_def signal_of_def)
  have s: "subscriptions session0 = [5, 6]" "events session0 = 2"
    by (simp_all add: session0_def)
  note f = terminal_event_is_final
    [of "signal_of STATE_AUTH_FAILED" False "\<lparr>sess = session0, trace = []\<rparr>",
     THEN conjunct2, THEN conjunct2, rule_format, OF t,
     of "[DoSubscribe 9, Deliver (signal_of STATE_CONNECTED)]"]
  show ?thesis
    using t f by (simp only: e s proj_Nil machine.simps append_Nil list.map simp_thms)
qed

lemma loop_control:
  "fst (manage_loop sgs ex m)
     = (if \<exists>sg \<in> set sgs. terminal sg then Return else Continue (flag_after ex sgs))"
proof (induction sgs arbitrary: ex m)
  case Nil
  show ?case by simp
next
  case (Cons sg sgs)
  show ?case
    by (cases ex; cases "sig_state sg"; cases "redial_result sg")
       (auto simp: step_eq Cons.IH step_control_table spec_signal_of_def terminal_def)
qed

lemma expired_interval_alt:
  "expired_interval sgs
     = (\<exists>i<length sgs. expiry_ok (sgs ! i)
          \<and> (\<forall>j. i < j \<and> j < length sgs \<longrightarrow> sig_state (sgs ! j) \<noteq> STATE_CONNECTED))"
  by (auto simp: expired_interval_def expiry_ok_def)

lemma expired_interval_snoc:
  "expired_interval (sgs @ [sg])
     = (expiry_ok sg \<or> (sig_state sg \<noteq> STATE_CONNECTED \<and> expired_interval sgs))"
proof
  assume "expired_interval (sgs @ [sg])"
  then obtain i where i: "i < Suc (length sgs)" and p: "expiry_ok ((sgs @ [sg]) ! i)"
    and q: "\<And>j. i < j \<Longrightarrow> j < Suc (length sgs) \<Longrightarrow> sig_state ((sgs @ [sg]) ! j) \<noteq> STATE_CONNECTED"
    by (auto simp: expired_interval_alt)
  show "expiry_ok sg \<or> (sig_state sg \<noteq> STATE_CONNECTED \<and> expired_interval sgs)"
  proof (cases "i = length sgs")
    case True
    then show ?thesis using p by simp
  next
    case False
    then have lt: "i < length sgs" using i by simp
    have "sig_state sg \<noteq> STATE_CONNECTED"
      using q [of "length sgs"] lt by simp
    moreover have "expired_interval sgs"
      unfolding expired_interval_alt
    proof (intro exI conjI allI impI)
      show "i < length sgs" by (rule lt)
      show "expiry_ok (sgs ! i)" using p lt by (simp add: nth_append)
      fix j assume "i < j \<and> j < length sgs"
      then show "sig_state (sgs ! j) \<noteq> STATE_CONNECTED"
        using q [of j] by (simp add: nth_append)
    qed
    ultimately show ?thesis by simp
  qed
next
  assume r: "expiry_ok sg \<or> (sig_state sg \<noteq> STATE_CONNECTED \<and> expired_interval sgs)"
  show "expired_interval (sgs @ [sg])"
  proof (cases "expiry_ok sg")
    case True
    then show ?thesis
      unfolding expired_interval_alt
      by (intro exI [of _ "length sgs"]) auto
  next
    case False
    then have c: "sig_state sg \<noteq> STATE_CONNECTED" and e: "expired_interval sgs"
      using r by simp_all
    from e obtain i where lt: "i < length sgs" and p: "expiry_ok (sgs ! i)"
      and q: "\<And>j. i < j \<Longrightarrow> j < length sgs \<Longrightarrow> sig_state (sgs ! j) \<noteq> STATE_CONNECTED"
      by (auto simp: expired_interval_alt)
    show ?thesis
      unfolding expired_interval_alt
    proof (intro exI [of _ i] conjI allI impI)
      show "i < length (sgs @ [sg])" using lt by simp
      show "expiry_ok ((sgs @ [sg]) ! i)" using p lt by (simp add: nth_append)
      fix j assume j: "i < j \<and> j < length (sgs @ [sg])"
      show "sig_state ((sgs @ [sg]) ! j) \<noteq> STATE_CONNECTED"
      proof (cases "j = length sgs")
        case True
        then show ?thesis using c by simp
      next
        case False
        then have "j < length sgs" using j by simp
        then show ?thesis using q [of j] j by (simp add: nth_append)
      qed
    qed
  qed
qed

lemma flag_after_snoc:
  "flag_after ex (sgs @ [sg])
     = (if sig_state sg = STATE_EXPIRED_SESSION then True
        else if sig_state sg = STATE_CONNECTED then False else flag_after ex sgs)"
  by (induction sgs arbitrary: ex) simp_all

lemma flag_after_interval:
  "\<forall>sg \<in> set sgs. \<not> terminal sg \<Longrightarrow> flag_after False sgs = expired_interval sgs"
proof (induction sgs rule: rev_induct)
  case Nil
  show ?case by (simp add: expired_interval_def)
next
  case (snoc sg sgs)
  then have ih: "flag_after False sgs = expired_interval sgs" and nt: "\<not> terminal sg"
    by simp_all
  show ?case
    using nt ih
    by (cases "sig_state sg")
       (auto simp: flag_after_snoc expired_interval_snoc expiry_ok_def terminal_def)
qed

lemma step_flag:
  "step_control sg ex s = Continue ex' \<Longrightarrow>
     (sig_state sg = STATE_EXPIRED_SESSION \<longrightarrow> ex')
     \<and> (sig_state sg = STATE_CONNECTED \<longrightarrow> \<not> ex')
     \<and> (sig_state sg \<noteq> STATE_EXPIRED_SESSION \<and> sig_state sg \<noteq> STATE_CONNECTED \<longrightarrow> ex' = ex)"
  by (cases ex; cases "sig_state sg"; cases "redial_result sg")
     (auto simp: step_control_table spec_signal_of_def)

lemma step_cleared:
  "sig_state sg = STATE_CONNECTED \<Longrightarrow>
   notified (step_effects sg True s) = [SessionExpiredReconnected]"
  by (simp add: step_notified spec_signal_of_def)

text \<open>
  C3. While the loop runs, \<^verbatim>\<open>expired\<close> is true exactly when some expiry
  signal with a successful redial has been processed and no \<^verbatim>\<open>Connected\<close>
  signal after it; the loop has returned exactly when a terminal signal was among those
  delivered. The flag starts false; an iteration that goes on sets it on
  \<^verbatim>\<open>STATE_EXPIRED_SESSION\<close> and on nothing else, and clears it on
  \<^verbatim>\<open>STATE_CONNECTED\<close> and on nothing else, emitting
  \<^verbatim>\<open>SessionExpiredReconnected\<close> when it was set.
\<close>

theorem expired_flag_interval:
  "fst (manage sgs m)
     = (if \<exists>sg \<in> set sgs. terminal sg then Return else Continue (expired_interval sgs))
   \<and> fst (manage [] m) = Continue False
   \<and> (\<forall>sg ex ex'. fst (manage_step sg ex m) = Continue ex' \<longrightarrow>
        (sig_state sg = STATE_EXPIRED_SESSION \<longrightarrow> ex')
        \<and> (sig_state sg = STATE_CONNECTED \<longrightarrow> \<not> ex')
        \<and> (ex' \<and> \<not> ex \<longrightarrow> sig_state sg = STATE_EXPIRED_SESSION)
        \<and> (ex \<and> \<not> ex' \<longrightarrow> sig_state sg = STATE_CONNECTED
              \<and> notified (step_effects sg ex (sess m)) = [SessionExpiredReconnected]))"
proof (intro conjI allI impI)
  show "fst (manage sgs m)
     = (if \<exists>sg \<in> set sgs. terminal sg then Return else Continue (expired_interval sgs))"
    by (simp add: manage_def loop_control flag_after_interval)
  show "fst (manage [] m) = Continue False"
    by (simp add: manage_def)
next
  fix sg ex ex'
  assume a: "fst (manage_step sg ex m) = Continue ex'"
  then have c: "step_control sg ex (sess m) = Continue ex'"
    by (simp add: step_frame)
  note f = step_flag [OF c]
  { assume "sig_state sg = STATE_EXPIRED_SESSION" then show ex' using f by simp }
  { assume "sig_state sg = STATE_CONNECTED" then show "\<not> ex'" using f by simp }
  { assume "ex' \<and> \<not> ex" then show "sig_state sg = STATE_EXPIRED_SESSION" using f by auto }
  { assume h: "ex \<and> \<not> ex'"
    then show "sig_state sg = STATE_CONNECTED" using f by auto
    then show "notified (step_effects sg ex (sess m)) = [SessionExpiredReconnected]"
      using h step_cleared by simp }
qed


theorem expired_flag_interval_witness:
  "fst (manage [expiry_redialled, signal_of STATE_CONNECTING] \<lparr>sess = session0, trace = []\<rparr>)
     = Continue True
   \<and> expired_interval [expiry_redialled, signal_of STATE_CONNECTING]
   \<and> fst (manage [expiry_redialled, signal_of STATE_CONNECTING, signal_of STATE_CONNECTED]
        \<lparr>sess = session0, trace = []\<rparr>) = Continue False
   \<and> fst (manage_step (signal_of STATE_CONNECTED) True \<lparr>sess = session0, trace = []\<rparr>)
       = Continue False
   \<and> notified (step_effects (signal_of STATE_CONNECTED) True session0)
       = [SessionExpiredReconnected]"
proof -
  have a: "expired_interval [expiry_redialled, signal_of STATE_CONNECTING]"
    by code_simp
  have b: "\<not> expired_interval
             [expiry_redialled, signal_of STATE_CONNECTING, signal_of STATE_CONNECTED]"
    by code_simp
  have c: "fst (manage_step (signal_of STATE_CONNECTED) True \<lparr>sess = session0, trace = []\<rparr>)
       = Continue False"
    by (simp add: step_frame step_control_table spec_signal_of_def signal_of_def)
  show ?thesis
    using a b c
      expired_flag_interval [of "[expiry_redialled, signal_of STATE_CONNECTING]"
        "\<lparr>sess = session0, trace = []\<rparr>"]
      expired_flag_interval
        [of "[expiry_redialled, signal_of STATE_CONNECTING, signal_of STATE_CONNECTED]"
        "\<lparr>sess = session0, trace = []\<rparr>"]
    by (simp add: terminal_def signal_of_def expiry_redialled_def)
qed


lemma step_expiry_effects:
  assumes "sig_state sg = STATE_EXPIRED_SESSION" and "redial_result sg = Inr (c, evs)"
  shows "step_effects sg ex s
     = [Rd F_events, Recv (events s) STATE_EXPIRED_SESSION, Rd F_conn]
       @ log_line (log s) ''gozk-recipes/session: got STATE_EXPIRED_SESSION for conn %+v''
           [ArgConn (conn s)]
       @ [Rd F_opts, Rd F_opts, Rd F_opts,
          CallRedial (Join (servers (opts s)) '','') (recvTimeout (opts s)) (clientID (opts s))]
       @ install_effects c sg s"
    and "step_session sg ex s
     = s\<lparr>conn := Some c, events := evs, opts := (opts s)\<lparr>clientID := client_id_result sg\<rparr>\<rparr>"
    and "step_control sg ex s = Continue True"
  using assms
  by (simp_all add: step_effects_def step_session_def step_control_def step_unfold)

lemma filter_log_line:
  "filter is_write (log_line lg f v) = []"
  "filter (\<lambda>e. e = Lock \<or> e = Unlock) (log_line lg f v) = []"
  "filter (\<lambda>x. \<not> is_log x) (log_line lg f v) = []"
  by (cases lg; simp add: log_line_def)+

lemma guarded_append:
  "guarded P held (a @ b) = (guarded P held a \<and> guarded P (held_after held a) b)"
  by (induction P held a rule: guarded.induct) simp_all




text \<open>
  C6. When the redial has succeeded and \<^verbatim>\<open>Close()\<close> on the old handle returns
  an error, the iteration ends as it does without the error: the loop goes on, the session
  has the new handle, stream and token, no event is emitted or sent, and apart from log
  lines the effects are the same. The old handle was closed, and a caller's logger was
  handed the line with the error.
\<close>

theorem close_error_is_swallowed:
  assumes "sig_state sg = STATE_EXPIRED_SESSION" and "redial_result sg = Inr (c, evs)"
    and "conn s = Some old" and "close_result sg = Some e"
  shows "step_control sg expired s = Continue True
   \<and> step_session sg expired s = step_session (sg\<lparr>close_result := None\<rparr>) expired s
   \<and> conn (step_session sg expired s) = Some c
   \<and> events (step_session sg expired s) = evs
   \<and> clientID (opts (step_session sg expired s)) = client_id_result sg
   \<and> notified (step_effects sg expired s) = []
   \<and> sent (step_effects sg expired s) = []
   \<and> filter (\<lambda>x. \<not> is_log x) (step_effects sg expired s)
       = filter (\<lambda>x. \<not> is_log x) (step_effects (sg\<lparr>close_result := None\<rparr>) expired s)
   \<and> CallClose old \<in> set (step_effects sg expired s)
   \<and> (\<forall>l. log s = callerLogger l \<longrightarrow>
         LogLine l ''gozk-recipes/session: error in closing existing zookeeper connection: %v''
           [ArgErr e] \<in> set (step_effects sg expired s))"
proof -
  let ?sg0 = "sg\<lparr>close_result := None\<rparr>"
  have a0: "sig_state ?sg0 = STATE_EXPIRED_SESSION" and b0: "redial_result ?sg0 = Inr (c, evs)"
    using assms by simp_all
  note e = step_expiry_effects [OF assms(1,2)]
  note e0 = step_expiry_effects [OF a0 b0]
  show ?thesis
  proof (intro conjI allI impI)
    show "step_control sg expired s = Continue True" by (rule e)
    show "step_session sg expired s = step_session ?sg0 expired s"
      by (simp add: e e0)
    show "conn (step_session sg expired s) = Some c" by (simp add: e)
    show "events (step_session sg expired s) = evs" by (simp add: e)
    show "clientID (opts (step_session sg expired s)) = client_id_result sg" by (simp add: e)
    show "notified (step_effects sg expired s) = []"
      by (simp add: e install_effects_def proj_simps split: option.split)
    show "sent (step_effects sg expired s) = []"
      by (simp add: e install_effects_def proj_simps split: option.split)
    show "filter (\<lambda>x. \<not> is_log x) (step_effects sg expired s)
       = filter (\<lambda>x. \<not> is_log x) (step_effects ?sg0 expired s)"
      using assms by (simp add: e e0 install_effects_def filter_log_line)
    show "CallClose old \<in> set (step_effects sg expired s)"
      using assms by (simp add: e install_effects_def)
  next
    fix l assume "log s = callerLogger l"
    then show "LogLine l ''gozk-recipes/session: error in closing existing zookeeper connection: %v''
           [ArgErr e] \<in> set (step_effects sg expired s)"
      using assms by (simp add: e install_effects_def log_line_def)
  qed
qed


theorem close_error_is_swallowed_witness:
  "sig_state expiry_redialled = STATE_EXPIRED_SESSION
   \<and> redial_result expiry_redialled = Inr (8, 9)
   \<and> conn session0 = Some 1
   \<and> close_result expiry_redialled = Some ''already closed''
   \<and> step_control expiry_redialled False session0 = Continue True
   \<and> conn (step_session expiry_redialled False session0) = Some 8
   \<and> notified (step_effects expiry_redialled False session0) = []
   \<and> LogLine 0 ''gozk-recipes/session: error in closing existing zookeeper connection: %v''
        [ArgErr ''already closed''] \<in> set (step_effects expiry_redialled False session0)"
proof -
  have a: "sig_state expiry_redialled = STATE_EXPIRED_SESSION"
    and b: "redial_result expiry_redialled = Inr (8, 9)"
    and c: "conn session0 = Some 1"
    and d: "close_result expiry_redialled = Some ''already closed''"
    and l: "log session0 = callerLogger 0"
    by (simp_all add: expiry_redialled_def session0_def)
  note f = close_error_is_swallowed [OF a b c d, of False]
  show ?thesis
    using a b c d l f by blast
qed

lemma notifySubscribers_eq:
  "notifySubscribers e m = m\<lparr>trace := trace m @ notify_effects (subscriptions (sess m)) e\<rparr>"
  by (rule machine.equality)
     (simp_all add: notifySubscribers_trace notifySubscribers_sess notify_effects_def)

lemma broadcast_eq:
  "broadcast evs m
     = m\<lparr>trace := trace m @ concat (map (notify_effects (subscriptions (sess m))) evs)\<rparr>"
  unfolding broadcast_def
  by (induction evs arbitrary: m) (simp_all add: notifySubscribers_eq)

lemma broadcast_effects_eq:
  "broadcast_effects evs s = concat (map (notify_effects (subscriptions s)) evs)"
  by (simp add: broadcast_effects_def broadcast_eq)

lemma pairs_for_sink:
  "map snd (filter (\<lambda>p. fst p = x) (map (\<lambda>y. (y, e)) subs)) = replicate (count_list subs x) e"
  by (induction subs) simp_all

lemma held_after_append:
  "held_after held (a @ b) = held_after (held_after held a) b"
  by (induction held a rule: held_after.induct) simp_all

lemma sent_notify: "sent (notify_effects subs e) = map (\<lambda>x. (x, e)) subs"
  by (simp add: notify_effects_def proj_simps)

lemma received_notify:
  "received x (notify_effects subs e) = replicate (count_list subs x) e"
  by (simp add: received_def sent_notify pairs_for_sink)

lemma guarded_sends:
  "guarded is_send True (map (\<lambda>x. Send x e) subs @ tr) = guarded is_send True tr"
  "held_after True (map (\<lambda>x. Send x e) subs @ tr) = held_after True tr"
  by (induction subs) simp_all

lemma guarded_notify:
  "guarded is_send held (notify_effects subs e)"
  "held_after held (notify_effects subs e) = False"
  by (simp_all add: notify_effects_def guarded_sends)

lemma replicate_one: "n = 1 \<Longrightarrow> concat (map (replicate n) evs) = evs"
  by (induction evs) simp_all

text \<open>
  C7, as it is stated, has every registered sink receive a broadcast event exactly once.
  \<^verbatim>\<open>Subscribe\<close> appends without looking for the sink in the slice: a sink
  subscribed twice is in it twice, and one broadcast sends it the event twice.
\<close>

theorem broadcast_duplicate_sink_counterexample:
  "subscriptions (sess (Subscribe 5 (Subscribe 5
       \<lparr>sess = session0\<lparr>subscriptions := []\<rparr>, trace = []\<rparr>))) = [5, 5]
   \<and> received 5 (trace (notifySubscribers SessionDisconnected
       (Subscribe 5 (Subscribe 5 \<lparr>sess = session0\<lparr>subscriptions := []\<rparr>, trace = []\<rparr>))))
       = [SessionDisconnected, SessionDisconnected]
   \<and> received 5 (trace (notifySubscribers SessionDisconnected
       (Subscribe 5 (Subscribe 5 \<lparr>sess = session0\<lparr>subscriptions := []\<rparr>, trace = []\<rparr>))))
       \<noteq> [SessionDisconnected]"
  by (simp add: notifySubscribers_trace Subscribe_simps received_def proj_simps)

text \<open>
  C7, as the code has it. \<^verbatim>\<open>notifySubscribers\<close> takes the mutex, sends the
  event once for each element of \<^verbatim>\<open>s.subscriptions\<close> in slice order, and
  releases the mutex; it leaves the session as it is, and \<^verbatim>\<open>Subscribe\<close>
  appends at the end. Over a run of broadcasts every send happens with the mutex held, the
  sends are the events in order, each fanned out over the registrations in order, and a
  sink receives every event once for each of its registrations: one registered once
  receives exactly the events, in emission order.
\<close>

theorem broadcast_in_registration_order:
  "trace (notifySubscribers e m)
     = trace m @ [Notify e, Lock, Rd F_subscriptions]
       @ map (\<lambda>x. Send x e) (subscriptions (sess m)) @ [Unlock]
   \<and> sess (notifySubscribers e m) = sess m
   \<and> subscriptions (sess (Subscribe x m)) = subscriptions (sess m) @ [x]
   \<and> guarded is_send False (broadcast_effects evs s)
   \<and> sent (broadcast_effects evs s) = fan_out (subscriptions s) evs
   \<and> (\<forall>y. received y (broadcast_effects evs s)
            = concat (map (replicate (count_list (subscriptions s) y)) evs))
   \<and> (\<forall>y. count_list (subscriptions s) y = 1 \<longrightarrow> received y (broadcast_effects evs s) = evs)"
proof -
  have g: "guarded is_send held (concat (map (notify_effects subs) evs))
           \<and> held_after held (concat (map (notify_effects subs) evs)) = (evs = [] \<and> held)"
    for held subs
    by (induction evs arbitrary: held)
       (simp_all add: guarded_append held_after_append guarded_notify)
  have r: "received y (concat (map (notify_effects subs) evs))
             = concat (map (replicate (count_list subs y)) evs)" for y subs
    by (induction evs) (simp_all add: proj_Nil proj_append received_notify)
  have s: "sent (concat (map (notify_effects subs) evs)) = fan_out subs evs" for subs
    by (induction evs) (simp_all add: proj_Nil proj_append sent_notify fan_out_def)
  show ?thesis
    by (simp add: notifySubscribers_trace notifySubscribers_sess Subscribe_simps
          broadcast_effects_eq g r s replicate_one)
qed

theorem broadcast_in_registration_order_witness:
  "count_list (subscriptions session0) 5 = 1
   \<and> count_list (subscriptions session0) 6 = 1
   \<and> received 5 (broadcast_effects [SessionDisconnected, SessionReconnected] session0)
       = [SessionDisconnected, SessionReconnected]
   \<and> received 6 (broadcast_effects [SessionDisconnected, SessionReconnected] session0)
       = [SessionDisconnected, SessionReconnected]
   \<and> sent (broadcast_effects [SessionDisconnected, SessionReconnected] session0)
       = [(5, SessionDisconnected), (6, SessionDisconnected),
          (5, SessionReconnected), (6, SessionReconnected)]"
proof -
  have c: "count_list (subscriptions session0) 5 = 1" "count_list (subscriptions session0) 6 = 1"
    by (simp_all add: session0_def)
  note f = broadcast_in_registration_order
    [of SessionClosed "\<lparr>sess = session0, trace = []\<rparr>" 7
        "[SessionDisconnected, SessionReconnected]" session0]
  have r5: "received 5 (broadcast_effects [SessionDisconnected, SessionReconnected] session0)
       = [SessionDisconnected, SessionReconnected]"
    using f c(1) by blast
  have r6: "received 6 (broadcast_effects [SessionDisconnected, SessionReconnected] session0)
       = [SessionDisconnected, SessionReconnected]"
    using f c(2) by blast
  have s: "sent (broadcast_effects [SessionDisconnected, SessionReconnected] session0)
       = fan_out (subscriptions session0) [SessionDisconnected, SessionReconnected]"
    using f by blast
  show ?thesis
    by (simp add: c r5 r6 s) (simp add: fan_out_def session0_def)
qed


lemma loop_ignored:
  "\<forall>sg \<in> set sgs. ignored sg \<Longrightarrow>
   manage_loop (sgs @ rest) ex m
     = manage_loop rest ex (m\<lparr>trace := trace m @ receives (events (sess m)) sgs\<rparr>)"
proof (induction sgs arbitrary: m)
  case Nil
  show ?case by (simp add: receives_def)
next
  case (Cons sg sgs)
  then have i: "sig_state sg = STATE_ASSOCIATING \<or> (\<exists>n. sig_state sg = STATE_OTHER n)"
    and r: "\<forall>sg \<in> set sgs. ignored sg"
    by (simp_all add: ignored_def)
  show ?case
    by (simp add: step_ignored [OF i] Cons.IH [OF r] receives_def)
qed

lemma proj_receives:
  "notified (receives c sgs) = []" "sent (receives c sgs) = []"
  by (induction sgs) (simp_all add: receives_def proj_simps)

text \<open>
  C8. A run of any number of \<^verbatim>\<open>STATE_ASSOCIATING\<close> signals leaves
  \<^verbatim>\<open>expired\<close> and the whole session (handle, stream, options with the token,
  subscribers) as they were, and emits and sends nothing: the only effects are the
  receives themselves.
\<close>

theorem associating_changes_nothing:
  assumes "\<forall>sg \<in> set sgs. sig_state sg = STATE_ASSOCIATING"
  shows "manage_loop sgs expired m
       = (Continue expired, m\<lparr>trace := trace m @ receives (events (sess m)) sgs\<rparr>)
   \<and> sess (snd (manage_loop sgs expired m)) = sess m
   \<and> notified (trace (snd (manage_loop sgs expired m))) = notified (trace m)
   \<and> sent (trace (snd (manage_loop sgs expired m))) = sent (trace m)"
proof -
  have "\<forall>sg \<in> set sgs. ignored sg" using assms by (simp add: ignored_def)
  from loop_ignored [OF this, of "[]" expired m]
  show ?thesis by (simp add: proj_append proj_receives)
qed

theorem associating_changes_nothing_witness:
  "map sig_state [signal_of STATE_ASSOCIATING, signal_of STATE_ASSOCIATING,
                  signal_of STATE_ASSOCIATING]
     = [STATE_ASSOCIATING, STATE_ASSOCIATING, STATE_ASSOCIATING]
   \<and> manage_loop [signal_of STATE_ASSOCIATING, signal_of STATE_ASSOCIATING,
                  signal_of STATE_ASSOCIATING] True \<lparr>sess = session0, trace = []\<rparr>
     = (Continue True,
        \<lparr>sess = session0,
         trace = [Rd F_events, Recv 2 STATE_ASSOCIATING, Rd F_events, Recv 2 STATE_ASSOCIATING,
                  Rd F_events, Recv 2 STATE_ASSOCIATING]\<rparr>)"
proof -
  have h: "\<forall>sg \<in> set [signal_of STATE_ASSOCIATING, signal_of STATE_ASSOCIATING,
                signal_of STATE_ASSOCIATING]. sig_state sg = STATE_ASSOCIATING"
    by (simp add: signal_of_def)
  have e: "events session0 = 2" by (simp add: session0_def)
  from associating_changes_nothing [OF h, of True "\<lparr>sess = session0, trace = []\<rparr>"]
  have "manage_loop [signal_of STATE_ASSOCIATING, signal_of STATE_ASSOCIATING,
                  signal_of STATE_ASSOCIATING] True \<lparr>sess = session0, trace = []\<rparr>
     = (Continue True, \<lparr>sess = session0, trace = []\<rparr>
          \<lparr>trace := trace \<lparr>sess = session0, trace = []\<rparr>
             @ receives (events (sess \<lparr>sess = session0, trace = []\<rparr>))
                 [signal_of STATE_ASSOCIATING, signal_of STATE_ASSOCIATING,
                  signal_of STATE_ASSOCIATING]\<rparr>)"
    by blast
  then show ?thesis
    by (simp add: receives_def e signal_of_def)
qed

text \<open>
  C10. A run of signals whose state is none of the six constants is received and has no
  other effect: the loop goes on with \<^verbatim>\<open>expired\<close> and the session unchanged,
  nothing is emitted or sent, and the signals after the run are processed as if the run
  had not been there.
\<close>

theorem unrecognized_state_is_skipped:
  assumes "\<forall>sg \<in> set sgs. \<exists>n. sig_state sg = STATE_OTHER n"
  shows "manage_loop (sgs @ rest) expired m
       = manage_loop rest expired (m\<lparr>trace := trace m @ receives (events (sess m)) sgs\<rparr>)
   \<and> manage_loop sgs expired m
       = (Continue expired, m\<lparr>trace := trace m @ receives (events (sess m)) sgs\<rparr>)
   \<and> sess (snd (manage_loop sgs expired m)) = sess m
   \<and> notified (trace (snd (manage_loop sgs expired m))) = notified (trace m)
   \<and> sent (trace (snd (manage_loop sgs expired m))) = sent (trace m)"
proof -
  have i: "\<forall>sg \<in> set sgs. ignored sg" using assms by (simp add: ignored_def)
  from loop_ignored [OF i, of rest expired m] loop_ignored [OF i, of "[]" expired m]
  show ?thesis by (simp add: proj_append proj_receives)
qed

theorem unrecognized_state_is_skipped_witness:
  "map sig_state [signal_of (STATE_OTHER 999), signal_of (STATE_OTHER (- 1))]
     = [STATE_OTHER 999, STATE_OTHER (- 1)]
   \<and> fst (manage_loop [signal_of (STATE_OTHER 999), signal_of (STATE_OTHER (- 1))] True
            \<lparr>sess = session0, trace = []\<rparr>) = Continue True
   \<and> sess (snd (manage_loop [signal_of (STATE_OTHER 999), signal_of (STATE_OTHER (- 1))] True
            \<lparr>sess = session0, trace = []\<rparr>)) = session0
   \<and> notified (trace (snd (manage_loop
        ([signal_of (STATE_OTHER 999), signal_of (STATE_OTHER (- 1))]
         @ [signal_of STATE_CONNECTING]) True \<lparr>sess = session0, trace = []\<rparr>)))
       = [SessionDisconnected]"
proof -
  have h: "\<forall>sg \<in> set [signal_of (STATE_OTHER 999), signal_of (STATE_OTHER (- 1))].
       \<exists>n. sig_state sg = STATE_OTHER n"
    by (simp add: signal_of_def)
  note f = unrecognized_state_is_skipped
    [OF h, of "[signal_of STATE_CONNECTING]" True "\<lparr>sess = session0, trace = []\<rparr>"]
  have k: "spec_signal_of (signal_of STATE_CONNECTING) = Some Connecting"
    by (simp add: spec_signal_of_def signal_of_def)
  have n: "notified (trace (snd (manage_loop [signal_of STATE_CONNECTING] True m)))
             = notified (trace m) @ [SessionDisconnected]" for m
    by (simp add: step_eq step_control_table step_notified k proj_append)
  show ?thesis
  proof (intro conjI)
    show "map sig_state [signal_of (STATE_OTHER 999), signal_of (STATE_OTHER (- 1))]
     = [STATE_OTHER 999, STATE_OTHER (- 1)]" by (simp add: signal_of_def)
    show "fst (manage_loop [signal_of (STATE_OTHER 999), signal_of (STATE_OTHER (- 1))] True
            \<lparr>sess = session0, trace = []\<rparr>) = Continue True"
      using f by simp
    show "sess (snd (manage_loop [signal_of (STATE_OTHER 999), signal_of (STATE_OTHER (- 1))] True
            \<lparr>sess = session0, trace = []\<rparr>)) = session0"
      using f by simp
    show "notified (trace (snd (manage_loop
        ([signal_of (STATE_OTHER 999), signal_of (STATE_OTHER (- 1))]
         @ [signal_of STATE_CONNECTING]) True \<lparr>sess = session0, trace = []\<rparr>)))
       = [SessionDisconnected]"
      by (simp only: f [THEN conjunct1] n) (simp add: proj_simps proj_receives)
  qed
qed

lemma foldl_keeps_field:
  "\<forall>so \<in> set fs. \<forall>x. g (so x) = g x \<Longrightarrow> g (foldl (\<lambda>a so. so a) init fs) = g init"
  by (induction fs arbitrary: init) simp_all

text \<open>
  C9. If no option changes \<^verbatim>\<open>recvTimeout\<close>, the options handed to
  \<^verbatim>\<open>Create\<close> have \<^verbatim>\<open>DefaultRecvTimeout\<close>, which is 5 seconds in
  nanoseconds; if no option changes \<^verbatim>\<open>logger\<close>, they have the
  \<^verbatim>\<open>nullLogger\<close>, and \<^verbatim>\<open>Printf\<close> on a session that logs to the
  \<^verbatim>\<open>nullLogger\<close> changes nothing. \<^verbatim>\<open>NewSessionWithOpts\<close> hands
  \<^verbatim>\<open>Create\<close> exactly these options.
\<close>

theorem defaults_before_create:
  "((\<forall>so \<in> set opts'. \<forall>x. recvTimeout (so x) = recvTimeout x)
      \<longrightarrow> recvTimeout (sessionOpts opts') = DefaultRecvTimeout)
   \<and> sint DefaultRecvTimeout = 5000000000
   \<and> ((\<forall>so \<in> set opts'. \<forall>x. logger (so x) = logger x)
      \<longrightarrow> logger (sessionOpts opts') = nullLogger)
   \<and> (\<forall>format v m. log (sess m) = nullLogger \<longrightarrow> Printf format v m = m)
   \<and> NewSessionWithOpts Create opts'
       = (case Create (sessionOpts opts') of
            Inl e \<Rightarrow> Inl (''creating zookeeper session: '' @ e)
          | Inr session \<Rightarrow> Inr session)
   \<and> sessionOpts []
       = \<lparr>servers = [], recvTimeout = DefaultRecvTimeout, clientID = None, logger = nullLogger\<rparr>"
proof (intro conjI impI allI)
  assume "\<forall>so \<in> set opts'. \<forall>x. recvTimeout (so x) = recvTimeout x"
  from foldl_keeps_field [of opts' recvTimeout, OF this]
  show "recvTimeout (sessionOpts opts') = DefaultRecvTimeout"
    by (simp add: sessionOpts_def)
next
  assume "\<forall>so \<in> set opts'. \<forall>x. logger (so x) = logger x"
  from foldl_keeps_field [of opts' logger, OF this]
  show "logger (sessionOpts opts') = nullLogger"
    by (simp add: sessionOpts_def)
next
  show "sint DefaultRecvTimeout = 5000000000"
    by (simp add: DefaultRecvTimeout_def Second_def)
next
  fix format v and m :: machine assume "log (sess m) = nullLogger"
  then show "Printf format v m = m" by (simp add: Printf_def)
next
  show "NewSessionWithOpts Create opts'
       = (case Create (sessionOpts opts') of
            Inl e \<Rightarrow> Inl (''creating zookeeper session: '' @ e)
          | Inr session \<Rightarrow> Inr session)"
    by (simp add: NewSessionWithOpts_def)
  show "sessionOpts []
       = \<lparr>servers = [], recvTimeout = DefaultRecvTimeout, clientID = None, logger = nullLogger\<rparr>"
    by (simp add: sessionOpts_def)
qed

theorem defaults_before_create_witness:
  "(\<forall>x. recvTimeout (x\<lparr>servers := [''10.0.0.1:2181'']\<rparr>) = recvTimeout x)
   \<and> (\<forall>x. recvTimeout (WithZookeeperClientID (Some 3) x) = recvTimeout x)
   \<and> (\<forall>x. logger (x\<lparr>servers := [''10.0.0.1:2181'']\<rparr>) = logger x)
   \<and> (\<forall>x. logger (WithZookeeperClientID (Some 3) x) = logger x)
   \<and> sessionOpts [\<lambda>so. so\<lparr>servers := [''10.0.0.1:2181'']\<rparr>, WithZookeeperClientID (Some 3)]
       = \<lparr>servers = [''10.0.0.1:2181''], recvTimeout = DefaultRecvTimeout, clientID = Some 3,
          logger = nullLogger\<rparr>
   \<and> sint (recvTimeout
        (sessionOpts [\<lambda>so. so\<lparr>servers := [''10.0.0.1:2181'']\<rparr>,
                      WithZookeeperClientID (Some 3)]))
       = 5000000000
   \<and> logger (sessionOpts [\<lambda>so. so\<lparr>servers := [''10.0.0.1:2181'']\<rparr>,
                           WithZookeeperClientID (Some 3)]) = nullLogger
   \<and> log (sess \<lparr>sess = session0\<lparr>log := nullLogger\<rparr>, trace = []\<rparr>) = nullLogger
   \<and> Printf ''gozk-recipes/session.SessionDisconnected: attempting to reconnect'' []
        \<lparr>sess = session0\<lparr>log := nullLogger\<rparr>, trace = []\<rparr>
       = \<lparr>sess = session0\<lparr>log := nullLogger\<rparr>, trace = []\<rparr>"
proof -
  let ?opts = "[\<lambda>so. so\<lparr>servers := [''10.0.0.1:2181'']\<rparr>, WithZookeeperClientID (Some 3)]"
  have h1: "\<forall>so \<in> set ?opts. \<forall>x. recvTimeout (so x) = recvTimeout x"
    and h2: "\<forall>so \<in> set ?opts. \<forall>x. logger (so x) = logger x"
    by (simp_all add: WithZookeeperClientID_def)
  have h3: "log (sess \<lparr>sess = session0\<lparr>log := nullLogger\<rparr>, trace = []\<rparr>) = nullLogger"
    by simp
  have v: "sessionOpts ?opts
       = \<lparr>servers = [''10.0.0.1:2181''], recvTimeout = DefaultRecvTimeout, clientID = Some 3,
          logger = nullLogger\<rparr>"
    by (simp add: sessionOpts_def WithZookeeperClientID_def)
  note f = defaults_before_create [of ?opts "\<lambda>so. Inl ''no ensemble''"]
  have t: "recvTimeout (sessionOpts ?opts) = DefaultRecvTimeout"
    using f h1 by blast
  have g: "logger (sessionOpts ?opts) = nullLogger"
    using f h2 by blast
  have n: "sint DefaultRecvTimeout = 5000000000"
    using f by blast
  have p: "Printf ''gozk-recipes/session.SessionDisconnected: attempting to reconnect'' []
        \<lparr>sess = session0\<lparr>log := nullLogger\<rparr>, trace = []\<rparr>
       = \<lparr>sess = session0\<lparr>log := nullLogger\<rparr>, trace = []\<rparr>"
    using f h3 by blast
  show ?thesis
  proof (intro conjI)
    show "sint (recvTimeout (sessionOpts ?opts)) = 5000000000"
      by (simp only: t n)
    show "\<forall>x. recvTimeout (x\<lparr>servers := [''10.0.0.1:2181'']\<rparr>) = recvTimeout x"
      and "\<forall>x. recvTimeout (WithZookeeperClientID (Some 3) x) = recvTimeout x"
      and "\<forall>x. logger (x\<lparr>servers := [''10.0.0.1:2181'']\<rparr>) = logger x"
      and "\<forall>x. logger (WithZookeeperClientID (Some 3) x) = logger x"
      by (simp_all add: WithZookeeperClientID_def)
  qed (rule h3 v p g)+
qed

text \<open>
  C4, as it is stated, asks that the handle be read with \<^verbatim>\<open>s.mu\<close> held.
  \<^verbatim>\<open>Get\<close> on a sample session reads it with the mutex free.
\<close>

theorem passthrough_reads_without_lock_counterexample:
  "\<not> guarded is_conn_read False
       (fst (ZKSession_Get (\<lambda>c r w. ((), w)) session0 ''/lock'' ()))"
  by (simp add: ZKSession_Get_def)

lemma passes_through_intro:
  "out = ([Rd F_conn, Call (conn s) req], T (conn s) req w) \<Longrightarrow> passes_through T s w req out"
  by (simp add: passes_through_def calls_def notified_def)

text \<open>
  C4, as the code has it. Every pass-through method reads \<^verbatim>\<open>s.conn\<close> once,
  without taking \<^verbatim>\<open>s.mu\<close>, makes exactly one call on that handle with exactly
  the caller's arguments, and returns what the transport returns.
\<close>

theorem passthrough_is_verbatim:
  "passes_through T s w Conn_CurrentServer (ZKSession_CurrentConnection T s w)
   \<and> passes_through T s w Conn_ConnectedServer (ZKSession_CurrentServer T s w)
   \<and> passes_through T s w (Conn_SetServersResolutionDelay delay) (ZKSession_SetServersResolutionDelay T s delay w)
   \<and> passes_through T s w (Conn_ACL path) (ZKSession_ACL T s path w)
   \<and> passes_through T s w (Conn_AddAuth scheme cert) (ZKSession_AddAuth T s scheme cert w)
   \<and> passes_through T s w (Conn_Children path) (ZKSession_Children T s path w)
   \<and> passes_through T s w (Conn_ChildrenW path) (ZKSession_ChildrenW T s path w)
   \<and> passes_through T s w Conn_ClientId (ZKSession_ClientId T s w)
   \<and> passes_through T s w Conn_Close (ZKSession_Close T s w)
   \<and> passes_through T s w (Conn_Create path value flags aclv) (ZKSession_Create T s path value flags aclv w)
   \<and> passes_through T s w (Conn_Delete path version) (ZKSession_Delete T s path version w)
   \<and> passes_through T s w (Conn_Exists path) (ZKSession_Exists T s path w)
   \<and> passes_through T s w (Conn_ExistsW path) (ZKSession_ExistsW T s path w)
   \<and> passes_through T s w (Conn_Get path) (ZKSession_Get T s path w)
   \<and> passes_through T s w (Conn_GetW path) (ZKSession_GetW T s path w)
   \<and> passes_through T s w (Conn_Set path value version) (ZKSession_Set T s path value version w)
   \<and> passes_through T s w (Conn_RetryChange path flags acl changeFunc) (ZKSession_RetryChange T s path flags acl changeFunc w)
   \<and> passes_through T s w (Conn_SetACL path aclv version) (ZKSession_SetACL T s path aclv version w)"
  by (intro conjI passes_through_intro)
     (simp_all only: ZKSession_CurrentConnection_def ZKSession_CurrentServer_def ZKSession_SetServersResolutionDelay_def ZKSession_ACL_def ZKSession_AddAuth_def ZKSession_Children_def ZKSession_ChildrenW_def ZKSession_ClientId_def ZKSession_Close_def ZKSession_Create_def ZKSession_Delete_def ZKSession_Exists_def ZKSession_ExistsW_def ZKSession_Get_def ZKSession_GetW_def ZKSession_Set_def ZKSession_RetryChange_def ZKSession_SetACL_def)

theorem passthrough_is_verbatim_witness:
  "snd (ZKSession_Set (\<lambda>c r w. ((c, r), Suc w)) session0 ''/config'' ''on'' 3 0)
     = ((Some 1, Conn_Set ''/config'' ''on'' 3), 1)
   \<and> Lock \<notin> set (fst (ZKSession_Set (\<lambda>c r w. ((c, r), Suc w)) session0 ''/config'' ''on'' 3 0))
   \<and> calls (fst (ZKSession_Set (\<lambda>c r w. ((c, r), Suc w)) session0 ''/config'' ''on'' 3 0))
       = [(Some 1, Conn_Set ''/config'' ''on'' 3)]"
proof -
  have c: "conn session0 = Some 1" by (simp add: session0_def)
  have "passes_through (\<lambda>c r w. ((c, r), Suc w)) session0 0 (Conn_Set ''/config'' ''on'' 3)
          (ZKSession_Set (\<lambda>c r w. ((c, r), Suc w)) session0 ''/config'' ''on'' 3 0)"
    using passthrough_is_verbatim
      [of "\<lambda>c r w. ((c, r), Suc w)" session0 0 _ "''/config''" _ _ "''on''" _ _ 3]
    by blast
  then show ?thesis
    by (simp add: passes_through_def c)
qed

end
